theory Spec2Isabelle
  imports Main "HOL-Library.AList"
begin

section \<open>Strings and numbers as the program uses them\<close>

text \<open>
  Strings are character lists. Numbers are modelled as unbounded integers: every number
  the duration codec handles is a whole count of milliseconds or of units, on which the
  IEEE doubles of the program are exact below \<open>2 ^ 53\<close>.
\<close>

datatype error = RangeError | TypeError | PlainError | Thrown string

definition is_digit :: "char \<Rightarrow> bool" where
  "is_digit c = (c \<in> set ''0123456789'')"

definition digit_char :: "nat \<Rightarrow> char" where
  "digit_char d = ''0123456789'' ! d"

text \<open>The template literal \<open>`${v}`\<close> on a whole number: its decimal digits.\<close>

fun show_nat :: "nat \<Rightarrow> string" where
  "show_nat n = (if n < 10 then [digit_char n] else show_nat (n div 10) @ [digit_char (n mod 10)])"

declare show_nat.simps [simp del]

definition show_int :: "int \<Rightarrow> string" where
  "show_int v = (if v < 0 then CHR ''-'' # show_nat (nat (- v)) else show_nat (nat v))"

text \<open>\<open>Array.prototype.join\<close>.\<close>

fun join :: "string \<Rightarrow> string list \<Rightarrow> string" where
  "join sep [] = []"
| "join sep [x] = x"
| "join sep (x # y # ys) = x @ sep @ join sep (y # ys)"

text \<open>\<open>String.prototype.lastIndexOf\<close> on one character; \<open>None\<close> stands for \<open>-1\<close>.\<close>

fun lastIndexOf_from :: "char \<Rightarrow> string \<Rightarrow> nat \<Rightarrow> nat option \<Rightarrow> nat option" where
  "lastIndexOf_from c [] i found = found"
| "lastIndexOf_from c (x # xs) i found =
     lastIndexOf_from c xs (Suc i) (if x = c then Some i else found)"

definition lastIndexOf :: "char \<Rightarrow> string \<Rightarrow> nat option" where
  "lastIndexOf c s = lastIndexOf_from c s 0 None"

section \<open>Utils.formatTime\<close>

record times =
  years :: int
  months :: int
  weeks :: int
  days :: int
  hours :: int
  minutes :: int
  seconds :: int

definition times0 :: times where
  "times0 = \<lparr>years = 0, months = 0, weeks = 0, days = 0, hours = 0, minutes = 0, seconds = 0\<rparr>"

text \<open>
  The decomposition loop \<open>while (milliseconds > 0)\<close>. \<open>Math.round (ms / 1000)\<close> rounds
  half up, which on a whole number of milliseconds is \<open>(ms + 500) div 1000\<close>.
\<close>

function formatTime_loop :: "int \<Rightarrow> times \<Rightarrow> times" where
  "formatTime_loop ms t =
     (if ms > 0 then
        (if ms - 31557600000 \<ge> 0 then formatTime_loop (ms - 31557600000) (t\<lparr>years := years t + 1\<rparr>)
         else if ms - 2628000000 \<ge> 0 then formatTime_loop (ms - 2628000000) (t\<lparr>months := months t + 1\<rparr>)
         else if ms - 604800000 \<ge> 0 then formatTime_loop (ms - 604800000) (t\<lparr>weeks := weeks t + 7\<rparr>)
         else if ms - 86400000 \<ge> 0 then formatTime_loop (ms - 86400000) (t\<lparr>days := days t + 1\<rparr>)
         else if ms - 3600000 \<ge> 0 then formatTime_loop (ms - 3600000) (t\<lparr>hours := hours t + 1\<rparr>)
         else if ms - 60000 \<ge> 0 then formatTime_loop (ms - 60000) (t\<lparr>minutes := minutes t + 1\<rparr>)
         else formatTime_loop 0 (t\<lparr>seconds := (ms + 500) div 1000\<rparr>))
      else t)"
  by pat_completeness auto
termination
  by (relation "measure (\<lambda>(ms, t). nat ms)") auto

declare formatTime_loop.simps [simp del]

text \<open>\<open>Object.entries(times)\<close>: the keys in the order the object literal declares them.\<close>

definition entries :: "times \<Rightarrow> (string \<times> int) list" where
  "entries t = [(''years'', years t), (''months'', months t), (''weeks'', weeks t),
     (''days'', days t), (''hours'', hours t), (''minutes'', minutes t), (''seconds'', seconds t)]"

text \<open>
  The rendering loop: the strings pushed on \<open>finalTime\<close>, in order; \<open>first\<close> is the flag
  of the source.
\<close>

fun render :: "bool \<Rightarrow> bool \<Rightarrow> (string \<times> int) list \<Rightarrow> string list" where
  "render minimal first [] = []"
| "render minimal first ((k, v) # es) =
     (if minimal then
        (if v = 0 \<and> \<not> first then render minimal first es
         else (if v < 10 then CHR ''0'' # show_int v else show_int v) # render minimal True es)
      else if v > 0 then (show_int v @ '' '' @ (if v > 1 then k else butlast k)) # render minimal first es
      else render minimal first es)"

definition and_last_comma :: "string \<Rightarrow> string" where
  "and_last_comma time =
     (if CHR '','' \<in> set time then
        (case lastIndexOf CHR '','' time of
           Some pos \<Rightarrow> take pos time @ '' and '' @ drop (pos + 1) time
         | None \<Rightarrow> time)
      else time)"

text \<open>
  \<open>formatTime\<close>; \<open>None\<close> is an \<open>undefined\<close> or \<open>NaN\<close> argument, and any other
  argument is a whole number of milliseconds. The parameter \<open>minimal\<close> is a boolean by
  type.
\<close>

definition formatTime :: "int option \<Rightarrow> bool \<Rightarrow> error + string" where
  "formatTime milliseconds minimal =
     (case milliseconds of
        None \<Rightarrow> Inl RangeError
      | Some ms \<Rightarrow>
          if ms = 0 then Inr (if minimal then ''00:00'' else ''N/A'')
          else
            let t = formatTime_loop ms times0;
                finalTime = render minimal False (entries t);
                finalTime = (if minimal \<and> length finalTime = 1 then ''00'' # finalTime else finalTime);
                time = join (if minimal then '':'' else '', '') finalTime
            in Inr (and_last_comma time))"

section \<open>Utils.parseTime\<close>

definition template :: "string list" where
  "template = [''second'', ''minute'', ''hour'', ''day'', ''week'', ''month'', ''year'']"

text \<open>\<open>template[i]\<close> appended to a string: past the end it is \<open>undefined\<close>, printed as such.\<close>

definition template_at :: "nat \<Rightarrow> string" where
  "template_at i = (if i < length template then template ! i else ''undefined'')"

text \<open>\<open>String.prototype.split\<close> on a one-character separator.\<close>

fun split_on :: "char \<Rightarrow> string \<Rightarrow> string list" where
  "split_on c [] = [[]]"
| "split_on c (x # xs) =
     (if x = c then [] # split_on c xs
      else (case split_on c xs of [] \<Rightarrow> [[x]] | y # ys \<Rightarrow> (x # y) # ys))"

text \<open>The class \<open>\s\<close> on ASCII: space, tab, line feed, vertical tab, form feed, carriage return.\<close>

definition is_space :: "char \<Rightarrow> bool" where
  "is_space c = (c \<in> set [CHR '' '', CHR 0x09, CHR 0x0A, CHR 0x0B, CHR 0x0C, CHR 0x0D])"

text \<open>\<open>String.prototype.toLowerCase\<close> on ASCII.\<close>

definition to_lower :: "char \<Rightarrow> char" where
  "to_lower c = (let n = (of_char c :: nat) in if 65 \<le> n \<and> n \<le> 90 then char_of (n + 32) else c)"

definition toLowerCase :: "string \<Rightarrow> string" where
  "toLowerCase s = map to_lower s"

text \<open>\<open>String.prototype.endsWith\<close>.\<close>

definition endsWith :: "string \<Rightarrow> string \<Rightarrow> bool" where
  "endsWith s suf = (length suf \<le> length s \<and> drop (length s - length suf) s = suf)"

subsection \<open>The token pattern\<close>

text \<open>
  The pattern \<open>/\d+\.*\d*\D+/g\<close> is a sequence of greedy repetitions of one character
  class each, with a least count (\<open>+\<close> is 1, \<open>*\<close> is 0). A backtracking matcher tries
  the longest run of each class first and gives characters back one at a time while the
  rest of the pattern fails, as the regular expression engine does. The result is the
  length of the match at the start of the string.
\<close>

datatype cls = Digit | NonDigit | Dot

fun in_cls :: "cls \<Rightarrow> char \<Rightarrow> bool" where
  "in_cls Digit c = is_digit c"
| "in_cls NonDigit c = (\<not> is_digit c)"
| "in_cls Dot c = (c = CHR ''.'')"

fun match_pieces :: "(cls \<times> nat) list \<Rightarrow> string \<Rightarrow> nat option"
  and backtrack :: "cls \<Rightarrow> nat \<Rightarrow> (cls \<times> nat) list \<Rightarrow> string \<Rightarrow> nat \<Rightarrow> nat option" where
  "match_pieces [] s = Some 0"
| "match_pieces ((c, m) # ps) s = backtrack c m ps s (length (takeWhile (in_cls c) s))"
| "backtrack c m ps s k =
     (if k < m then None
      else (case match_pieces ps (drop k s) of
              Some n \<Rightarrow> Some (k + n)
            | None \<Rightarrow> (case k of 0 \<Rightarrow> None | Suc j \<Rightarrow> backtrack c m ps s j)))"

declare backtrack.simps [simp del]

definition token_regex :: "(cls \<times> nat) list" where
  "token_regex = [(Digit, 1), (Dot, 0), (Digit, 0), (NonDigit, 1)]"

text \<open>
  The loop \<open>while ((res = regex.exec(time)) !== null)\<close>: the matches from left to right.
  Where the pattern does not match at the current position the search moves one character
  on; after a match it resumes behind it, and behind an empty match one character further
  (\<open>if (res.index === regex.lastIndex) regex.lastIndex++\<close>).
\<close>

function exec_all :: "string \<Rightarrow> string list" where
  "exec_all s =
     (if s = [] then []
      else (case match_pieces token_regex s of
              None \<Rightarrow> exec_all (tl s)
            | Some n \<Rightarrow> take n s # exec_all (drop (max n 1) s)))"
  by pat_completeness auto
termination
  by (relation "measure length") auto

declare exec_all.simps [simp del]

subsection \<open>One token\<close>

text \<open>\<open>local.match(/\D+/)[0]\<close>: the first maximal run of non-digits.\<close>

definition nondigit_run :: "string \<Rightarrow> string" where
  "nondigit_run local = takeWhile (\<lambda>c. \<not> is_digit c) (dropWhile is_digit local)"

text \<open>\<open>local.match(/\d+\.*\d*/)[0]\<close>: from the first digit on, digits, dots, digits.\<close>

definition numeric_run :: "string \<Rightarrow> string" where
  "numeric_run local =
     (let s = dropWhile (\<lambda>c. \<not> is_digit c) local;
          a = takeWhile is_digit s; r = dropWhile is_digit s;
          b = takeWhile (\<lambda>c. c = CHR ''.'') r; r' = dropWhile (\<lambda>c. c = CHR ''.'') r;
          c = takeWhile is_digit r'
      in a @ b @ c)"

definition digit_val :: "char \<Rightarrow> int" where
  "digit_val c = int (of_char c) - 48"

definition digits_value :: "string \<Rightarrow> int" where
  "digits_value ds = foldl (\<lambda>acc c. 10 * acc + digit_val c) 0 ds"

text \<open>
  \<open>parseInt(str, 10)\<close> on a string that starts with its digits (no blank, no sign): the
  value of the leading digits, \<open>None\<close> (for \<open>NaN\<close>) when there is none.
\<close>

definition parseInt :: "string \<Rightarrow> int option" where
  "parseInt str = (let ds = takeWhile is_digit str in if ds = [] then None else Some (digits_value ds))"

text \<open>The chain of \<open>endsWith\<close> tests, in the order of the source; \<open>None\<close> when none holds.\<close>

definition unit_weight :: "string \<Rightarrow> int option" where
  "unit_weight local =
     (let single = (length (nondigit_run local) = 1) in
      if endsWith local ''seconds'' \<or> endsWith local ''second'' \<or> (endsWith local ''s'' \<and> single)
        then Some 1000
      else if endsWith local ''minutes'' \<or> endsWith local ''minute'' \<or> (endsWith local ''m'' \<and> single)
        then Some 60000
      else if endsWith local ''hours'' \<or> endsWith local ''hour'' \<or> (endsWith local ''h'' \<and> single)
        then Some 3600000
      else if endsWith local ''days'' \<or> endsWith local ''day'' \<or> (endsWith local ''d'' \<and> single)
        then Some 86400000
      else if endsWith local ''weeks'' \<or> endsWith local ''week'' \<or> (endsWith local ''w'' \<and> single)
        then Some 604800000
      else if endsWith local ''months'' \<or> endsWith local ''month''
        then Some 2628000000
      else if endsWith local ''years'' \<or> endsWith local ''year'' \<or> (endsWith local ''y'' \<and> single)
        then Some 31557600000
      else None)"

text \<open>The loop body; the running \<open>duration\<close> is \<open>None\<close> once it is \<open>NaN\<close>.\<close>

definition parse_step :: "int option \<Rightarrow> string \<Rightarrow> int option" where
  "parse_step duration tok =
     (let local = toLowerCase tok in
      case unit_weight local of
        None \<Rightarrow> duration
      | Some w \<Rightarrow>
          (case (duration, parseInt (numeric_run local)) of
             (Some d, Some n) \<Rightarrow> Some (d + n * w)
           | _ \<Rightarrow> None))"

datatype parsed = Null | Number int | NaN

text \<open>
  The three rewritings of \<open>time\<close> before the loop. Splitting at \<open>/\s+/\<close> and joining with
  the empty string removes every blank character.
\<close>

definition colon_form :: "string \<Rightarrow> string" where
  "colon_form time =
     (if CHR '':'' \<in> set time then
        (let parts = rev (split_on CHR '':'' time)
         in concat (map (\<lambda>(v, i). v @ template_at i) (zip parts [0 ..< length parts])))
      else time)"

definition strip_blanks :: "string \<Rightarrow> string" where
  "strip_blanks time = (if CHR '' '' \<in> set time then filter (\<lambda>c. \<not> is_space c) time else time)"

definition bare_number :: "string \<Rightarrow> string" where
  "bare_number time = (if time \<noteq> [] \<and> list_all is_digit time then time @ ''seconds'' else time)"

definition parseTime :: "string \<Rightarrow> parsed" where
  "parseTime time =
     (case foldl parse_step (Some 0) (exec_all (bare_number (strip_blanks (colon_form time)))) of
        None \<Rightarrow> NaN
      | Some duration \<Rightarrow> if duration = 0 then Null else Number duration)"

section \<open>Objects, property keys and the store\<close>

text \<open>
  A property key is a string or one of the two module-private symbols. An object is the
  list of its own properties in creation order, each with its value and its
  \<open>enumerable\<close> attribute (every property this module creates is configurable).
  Objects and arrays live in a store and are referred to by address, so that two
  holders of one reference see the same content.
\<close>

datatype pkey = Name string | TRACK_SYMBOL | UNRESOLVED_TRACK_SYMBOL

datatype fn = ResolveFn | DisplayThumbnailFn string

datatype jsval = VUndefined | VNull | VBool bool | VNum int | VStr string | VFn fn | VRef nat

type_synonym obj = "(pkey \<times> jsval \<times> bool) list"

datatype cell = Object obj | Array "jsval list"

type_synonym heap = "cell list"

definition deref :: "heap \<Rightarrow> nat \<Rightarrow> cell option" where
  "deref h a = (if a < length h then Some (h ! a) else None)"

definition truthy :: "jsval \<Rightarrow> bool" where
  "truthy v = (case v of VUndefined \<Rightarrow> False | VNull \<Rightarrow> False | VBool b \<Rightarrow> b
     | VNum n \<Rightarrow> n \<noteq> 0 | VStr s \<Rightarrow> s \<noteq> [] | VFn f \<Rightarrow> True | VRef a \<Rightarrow> True)"

text \<open>Reading \<open>o[k]\<close> on an object: \<open>undefined\<close> when the object has no such property.\<close>

definition get_prop :: "obj \<Rightarrow> pkey \<Rightarrow> jsval" where
  "get_prop ob k = (case map_of ob k of None \<Rightarrow> VUndefined | Some (v, e) \<Rightarrow> v)"

text \<open>The assignment \<open>o[k] = v\<close>: an existing property keeps its place and attributes.\<close>

fun set_prop :: "obj \<Rightarrow> pkey \<Rightarrow> jsval \<Rightarrow> obj" where
  "set_prop [] k v = [(k, v, True)]"
| "set_prop ((k', v', e) # ps) k v =
     (if k' = k then (k, v, e) # ps else (k', v', e) # set_prop ps k v)"

text \<open>
  \<open>Object.defineProperty(o, k, {configurable: true, value: v})\<close>: a new property is not
  enumerable; an existing one takes the value and keeps its \<open>enumerable\<close> attribute.
\<close>

fun defineProperty :: "obj \<Rightarrow> pkey \<Rightarrow> jsval \<Rightarrow> obj" where
  "defineProperty [] k v = [(k, v, False)]"
| "defineProperty ((k', v', e) # ps) k v =
     (if k' = k then (k, v, e) # ps else (k', v', e) # defineProperty ps k v)"

definition delete_prop :: "obj \<Rightarrow> pkey \<Rightarrow> obj" where
  "delete_prop ob k = filter (\<lambda>(k', ve). k' \<noteq> k) ob"

text \<open>\<open>Object.getOwnPropertyNames\<close>: the string keys, enumerable or not; no symbol.\<close>

fun getOwnPropertyNames :: "obj \<Rightarrow> string list" where
  "getOwnPropertyNames [] = []"
| "getOwnPropertyNames ((Name n, ve) # ps) = n # getOwnPropertyNames ps"
| "getOwnPropertyNames ((k, ve) # ps) = getOwnPropertyNames ps"

text \<open>\<open>Object.keys\<close>: the enumerable string keys.\<close>

fun object_keys :: "obj \<Rightarrow> string list" where
  "object_keys [] = []"
| "object_keys ((Name n, v, e) # ps) = (if e then n # object_keys ps else object_keys ps)"
| "object_keys ((k, ve) # ps) = object_keys ps"

text \<open>
  \<open>Object.assign(target, source)\<close>: every own enumerable property of the source, string
  or symbol keyed, is assigned to the target. The object spread \<open>{...a, ...b}\<close> is
  \<open>Object.assign\<close> on a new object.
\<close>

definition object_assign :: "obj \<Rightarrow> obj \<Rightarrow> obj" where
  "object_assign target source =
     fold (\<lambda>(k, v, e) t. if e then set_prop t k v else t) source target"

text \<open>
  Reading \<open>v[k]\<close> on any value: \<open>undefined\<close> and \<open>null\<close> throw a TypeError; a
  primitive, a function or an array has none of the keys of this module.
\<close>

definition get_member :: "heap \<Rightarrow> jsval \<Rightarrow> pkey \<Rightarrow> error + jsval" where
  "get_member h v k =
     (case v of
        VUndefined \<Rightarrow> Inl TypeError
      | VNull \<Rightarrow> Inl TypeError
      | VRef a \<Rightarrow> (case deref h a of Some (Object ob) \<Rightarrow> Inr (get_prop ob k) | _ \<Rightarrow> Inr VUndefined)
      | _ \<Rightarrow> Inr VUndefined)"

text \<open>\<open>v[TRACK_SYMBOL] || v[UNRESOLVED_TRACK_SYMBOL]\<close>.\<close>

definition either_marker :: "heap \<Rightarrow> jsval \<Rightarrow> error + jsval" where
  "either_marker h v =
     (case get_member h v TRACK_SYMBOL of
        Inl e \<Rightarrow> Inl e
      | Inr m \<Rightarrow> if truthy m then Inr m else get_member h v UNRESOLVED_TRACK_SYMBOL)"

section \<open>TrackUtils\<close>

datatype LoadType = TRACK_LOADED | PLAYLIST_LOADED | SEARCH_RESULT | LOAD_FAILED | NO_MATCHES

text \<open>
  The result of \<open>manager.search\<close>. The candidates are given by their content: the
  resolver reads their fields and \<open>resolve\<close> copies their properties, and neither
  depends on where a candidate is stored. \<open>exception\<close> holds the message of the
  exception object, when there is one.
\<close>

record SearchResult =
  loadType :: LoadType
  tracks :: "obj list"
  exception :: "string option"

text \<open>
  The static state of \<open>TrackUtils\<close>: \<open>trackPartial\<close> is \<open>null\<close> or the reference of
  the array given to the setter; \<open>manager\<close> is absent until \<open>init\<close>, and is represented
  by its \<open>search\<close> method, which may fail.
\<close>

record TrackUtils =
  trackPartial :: jsval
  manager :: "(string \<Rightarrow> jsval \<Rightarrow> error + SearchResult) option"

definition is_string :: "jsval \<Rightarrow> bool" where
  "is_string v = (case v of VStr s \<Rightarrow> True | _ \<Rightarrow> False)"

text \<open>
  \<open>setTrackPartial\<close>: \<open>unshift\<close> changes the caller's array in place, and the static
  field keeps the reference of that array.
\<close>

definition setTrackPartial :: "TrackUtils \<Rightarrow> heap \<Rightarrow> jsval \<Rightarrow> error + (TrackUtils \<times> heap)" where
  "setTrackPartial tu h partial =
     (case partial of
        VRef a \<Rightarrow>
          (case deref h a of
             Some (Array xs) \<Rightarrow>
               if \<not> list_all is_string xs then Inl PlainError
               else
                 let xs' = (if VStr ''track'' \<notin> set xs then VStr ''track'' # xs else xs)
                 in Inr (tu\<lparr>trackPartial := VRef a\<rparr>, h[a := Array xs'])
           | _ \<Rightarrow> Inl PlainError)
      | _ \<Rightarrow> Inl PlainError)"

fun validate_loop :: "heap \<Rightarrow> jsval list \<Rightarrow> error + bool" where
  "validate_loop h [] = Inr True"
| "validate_loop h (track # rest) =
     (case either_marker h track of
        Inl e \<Rightarrow> Inl e
      | Inr m \<Rightarrow> if \<not> truthy m then Inr False else validate_loop h rest)"

definition as_array :: "heap \<Rightarrow> jsval \<Rightarrow> jsval list option" where
  "as_array h v = (case v of VRef a \<Rightarrow> (case deref h a of Some (Array xs) \<Rightarrow> Some xs | _ \<Rightarrow> None) | _ \<Rightarrow> None)"

definition validate :: "heap \<Rightarrow> jsval \<Rightarrow> error + bool" where
  "validate h trackOrTracks =
     (if trackOrTracks = VUndefined then Inl RangeError
      else
        (case as_array h trackOrTracks of
           Some (x # xs) \<Rightarrow> validate_loop h (x # xs)
         | _ \<Rightarrow>
            (case either_marker h trackOrTracks of
               Inl e \<Rightarrow> Inl e
             | Inr m \<Rightarrow> Inr (m = VBool True))))"

definition isUnresolvedTrack :: "heap \<Rightarrow> jsval \<Rightarrow> error + bool" where
  "isUnresolvedTrack h track =
     (if track = VUndefined then Inl RangeError
      else (case get_member h track UNRESOLVED_TRACK_SYMBOL of
              Inl e \<Rightarrow> Inl e
            | Inr m \<Rightarrow> Inr (m = VBool True)))"

definition isTrack :: "heap \<Rightarrow> jsval \<Rightarrow> error + bool" where
  "isTrack h track =
     (if track = VUndefined then Inl RangeError
      else (case get_member h track TRACK_SYMBOL of
              Inl e \<Rightarrow> Inl e
            | Inr m \<Rightarrow> Inr (m = VBool True)))"

subsection \<open>build\<close>

record TrackDataInfo =
  info_title :: string
  info_identifier :: string
  info_author :: string
  info_length :: int
  info_isSeekable :: bool
  info_isStream :: bool
  info_uri :: string

text \<open>\<open>info\<close> is \<open>None\<close> when the raw data has none: reading a field of it then throws.\<close>

record TrackData =
  data_track :: string
  data_info :: "TrackDataInfo option"

text \<open>\<open>String.prototype.includes\<close>.\<close>

fun includes_str :: "string \<Rightarrow> string \<Rightarrow> bool" where
  "includes_str [] sub = (sub = [])"
| "includes_str (x # xs) sub = (take (length sub) (x # xs) = sub \<or> includes_str xs sub)"

definition track_literal :: "TrackData \<Rightarrow> TrackDataInfo \<Rightarrow> jsval \<Rightarrow> obj" where
  "track_literal data info requester =
     [(Name ''track'', VStr (data_track data), True),
      (Name ''title'', VStr (info_title info), True),
      (Name ''identifier'', VStr (info_identifier info), True),
      (Name ''author'', VStr (info_author info), True),
      (Name ''duration'', VNum (info_length info), True),
      (Name ''isSeekable'', VBool (info_isSeekable info), True),
      (Name ''isStream'', VBool (info_isStream info), True),
      (Name ''uri'', VStr (info_uri info), True),
      (Name ''thumbnail'',
         (if includes_str (info_uri info) ''youtube''
          then VStr (''https://img.youtube.com/vi/'' @ info_identifier info @ ''/default.jpg'')
          else VNull), True),
      (Name ''displayThumbnail'', VFn (DisplayThumbnailFn (info_identifier info)), True),
      (Name ''requester'', requester, True)]"

text \<open>
  The projection \<open>for (const key of Object.keys(track))\<close>: a key the array
  \<open>trackPartial\<close> does not include is deleted.
\<close>

definition project :: "jsval list \<Rightarrow> obj \<Rightarrow> obj" where
  "project partial track =
     fold (\<lambda>key t. if VStr key \<in> set partial then t else delete_prop t (Name key)) (object_keys track) track"

text \<open>
  \<open>build\<close>; \<open>data\<close> is \<open>None\<close> for \<open>undefined\<close>. Any error inside the \<open>try\<close> block is
  thrown again as a RangeError.
\<close>

definition build :: "TrackUtils \<Rightarrow> heap \<Rightarrow> TrackData option \<Rightarrow> jsval \<Rightarrow> error + obj" where
  "build tu h data requester =
     (case data of
        None \<Rightarrow> Inl RangeError
      | Some d \<Rightarrow>
          (case data_info d of
             None \<Rightarrow> Inl RangeError
           | Some info \<Rightarrow>
               let track = track_literal d info requester
               in if truthy (trackPartial tu) then
                    (case as_array h (trackPartial tu) of
                       Some partial \<Rightarrow> Inr (defineProperty (project partial track) TRACK_SYMBOL (VBool True))
                     | None \<Rightarrow> Inl RangeError)
                  else Inr (defineProperty track TRACK_SYMBOL (VBool True))))"

subsection \<open>buildUnresolved and resolve\<close>

datatype query = QUndefined | QString string | QObject obj

definition buildUnresolved :: "query \<Rightarrow> jsval \<Rightarrow> error + obj" where
  "buildUnresolved q requester =
     (let unresolvedTrack = [(Name ''requester'', requester, True), (Name ''resolve'', VFn ResolveFn, True)]
      in case q of
           QUndefined \<Rightarrow> Inl RangeError
         | QString s \<Rightarrow>
             Inr (defineProperty (set_prop unresolvedTrack (Name ''title'') (VStr s))
                    UNRESOLVED_TRACK_SYMBOL (VBool True))
         | QObject qo \<Rightarrow>
             Inr (defineProperty (object_assign (object_assign [] unresolvedTrack) qo)
                    UNRESOLVED_TRACK_SYMBOL (VBool True)))"

text \<open>
  The typed fields of a track: \<open>author\<close> and \<open>title\<close> are strings and \<open>duration\<close> is a
  number where present, by the interfaces \<open>Track\<close> and \<open>UnresolvedTrack\<close>; a field that is
  absent reads \<open>undefined\<close>.
\<close>

definition str_prop :: "obj \<Rightarrow> string \<Rightarrow> string option" where
  "str_prop ob n = (case get_prop ob (Name n) of VStr s \<Rightarrow> Some s | _ \<Rightarrow> None)"

definition num_prop :: "obj \<Rightarrow> string \<Rightarrow> int option" where
  "num_prop ob n = (case get_prop ob (Name n) of VNum d \<Rightarrow> Some d | _ \<Rightarrow> None)"

text \<open>
  \<open>new RegExp(`^${escapeRegExp(name)}$`, "i").test(x)\<close>: every special character of
  \<open>name\<close> is escaped, so the test is equality up to letter case; an \<open>undefined\<close>
  argument is tested as the string \<open>undefined\<close>.
\<close>

definition test_ci :: "string \<Rightarrow> string option \<Rightarrow> bool" where
  "test_ci name x = (toLowerCase name = toLowerCase (case x of Some s \<Rightarrow> s | None \<Rightarrow> ''undefined''))"

text \<open>\<open>Array.prototype.find\<close>, with a callback that may throw.\<close>

fun find_first :: "('a \<Rightarrow> error + bool) \<Rightarrow> 'a list \<Rightarrow> error + 'a option" where
  "find_first P [] = Inr None"
| "find_first P (x # xs) =
     (case P x of Inl e \<Rightarrow> Inl e | Inr True \<Rightarrow> Inr (Some x) | Inr False \<Rightarrow> find_first P xs)"

text \<open>
  The callback of the first \<open>find\<close>: the author of the candidate against the two channel
  names, or else its title against the unresolved title. Without a title,
  \<open>escapeRegExp(undefined)\<close> throws a TypeError.
\<close>

definition original_audio :: "string \<Rightarrow> string option \<Rightarrow> obj \<Rightarrow> error + bool" where
  "original_audio author title track =
     (if list_ex (\<lambda>name. test_ci name (str_prop track ''author'')) [author, author @ '' - Topic'']
      then Inr True
      else (case title of
              None \<Rightarrow> Inl TypeError
            | Some t \<Rightarrow> Inr (test_ci t (str_prop track ''title''))))"

text \<open>The callback of the second \<open>find\<close>; a candidate without a duration never matches.\<close>

definition same_duration :: "int \<Rightarrow> obj \<Rightarrow> error + bool" where
  "same_duration d track =
     (case num_prop track ''duration'' of
        Some td \<Rightarrow> Inr (td \<ge> d - 1500 \<and> td \<le> d + 1500)
      | None \<Rightarrow> Inr False)"

text \<open>
  The selection over the candidates \<open>res.tracks\<close>, after the search: the three steps of
  the source in their order. An author is given when the field is a non-empty string, a
  duration when it is a number other than 0. The result \<open>None\<close> is \<open>undefined\<close>
  (\<open>res.tracks[0]\<close> of an empty list).
\<close>

definition select_track :: "string option \<Rightarrow> string option \<Rightarrow> int option \<Rightarrow> obj list \<Rightarrow> error + obj option" where
  "select_track author title duration cands =
     (let first_step =
        (case author of
           None \<Rightarrow> Inr None
         | Some a \<Rightarrow> if a = [] then Inr None else find_first (original_audio a title) cands)
      in case first_step of
           Inl e \<Rightarrow> Inl e
         | Inr (Some originalAudio) \<Rightarrow> Inr (Some originalAudio)
         | Inr None \<Rightarrow>
             (let second_step =
                (case duration of
                   None \<Rightarrow> Inr None
                 | Some d \<Rightarrow> if d = 0 then Inr None else find_first (same_duration d) cands)
              in case second_step of
                   Inl e \<Rightarrow> Inl e
                 | Inr (Some sameDuration) \<Rightarrow> Inr (Some sameDuration)
                 | Inr None \<Rightarrow> Inr (case cands of [] \<Rightarrow> None | c # cs \<Rightarrow> Some c)))"

text \<open>
  The query \<open>[author, title].filter(str => !!str).join(" - ")\<close> of an unresolved track.
\<close>

definition search_query :: "obj \<Rightarrow> string" where
  "search_query ob =
     join '' - '' (filter (\<lambda>str. str \<noteq> [])
       (map (\<lambda>x. case x of Some s \<Rightarrow> s | None \<Rightarrow> []) [str_prop ob ''author'', str_prop ob ''title'']))"

text \<open>
  \<open>getClosestTrack\<close>: the checks, the search, which may fail, the load type, then the
  selection. The \<open>await\<close> of the search is a call: nothing else runs in between. A
  value that passes \<open>isUnresolvedTrack\<close> is the reference of an object, so the last two
  branches are never taken.
\<close>

definition getClosestTrack :: "TrackUtils \<Rightarrow> heap \<Rightarrow> jsval \<Rightarrow> error + obj option" where
  "getClosestTrack tu h unresolvedTrack =
     (case manager tu of
        None \<Rightarrow> Inl RangeError
      | Some search \<Rightarrow>
          (case isUnresolvedTrack h unresolvedTrack of
             Inl e \<Rightarrow> Inl e
           | Inr False \<Rightarrow> Inl RangeError
           | Inr True \<Rightarrow>
               (case unresolvedTrack of
                  VRef a \<Rightarrow>
                    (case deref h a of
                       Some (Object ob) \<Rightarrow>
                         (case search (search_query ob) (get_prop ob (Name ''requester'')) of
                            Inl e \<Rightarrow> Inl e
                          | Inr res \<Rightarrow>
                              if loadType res \<noteq> SEARCH_RESULT then
                                Inl (Thrown (case exception res of Some m \<Rightarrow> m | None \<Rightarrow> ''No tracks found.''))
                              else select_track (str_prop ob ''author'') (str_prop ob ''title'')
                                     (num_prop ob ''duration'') (tracks res))
                     | _ \<Rightarrow> Inl RangeError)
                | _ \<Rightarrow> Inl RangeError)))"

text \<open>
  The \<open>resolve\<close> method of an unresolved track, called on the object at address \<open>a\<close>:
  first the lookup, then the deletion of every own string-keyed property, then the copy
  of the resolved track's enumerable properties. \<open>Object.assign\<close> ignores an
  \<open>undefined\<close> source. The lookup succeeds on the reference of an object only, so the
  last branch is never taken.
\<close>

definition resolve :: "TrackUtils \<Rightarrow> heap \<Rightarrow> nat \<Rightarrow> (error + unit) \<times> heap" where
  "resolve tu h a =
     (case getClosestTrack tu h (VRef a) of
        Inl e \<Rightarrow> (Inl e, h)
      | Inr resolved \<Rightarrow>
          (case deref h a of
             Some (Object this) \<Rightarrow>
               let cleared = fold (\<lambda>prop t. delete_prop t (Name prop)) (getOwnPropertyNames this) this;
                   assigned = (case resolved of None \<Rightarrow> cleared | Some r \<Rightarrow> object_assign cleared r)
               in (Inr (), h[a := Object assigned])
           | _ \<Rightarrow> (Inl TypeError, h)))"

section \<open>Structure\<close>

text \<open>
  The registry \<open>structures\<close> is a plain object: its own properties are the bindings, and
  a name it does not own is looked up on \<open>Object.prototype\<close>, whose members are
  functions (or, for \<open>__proto__\<close>, the prototype object), all of them truthy. A bound
  value is a class, an inherited member, or \<open>SUndefined\<close>, which stands for \<open>undefined\<close>
  and every other falsy value a transform may return. The transform is taken as a
  function of the bound value alone. The assignment \<open>structures[name] = extended\<close>
  updates or adds an own property; for the one name \<open>__proto__\<close> it would set the
  prototype instead, which no statement below depends on.
\<close>

datatype 'c sval = SUndefined | SClass 'c | SInherited string

definition object_prototype_keys :: "string list" where
  "object_prototype_keys = [''constructor'', ''__defineGetter__'', ''__defineSetter__'',
     ''hasOwnProperty'', ''__lookupGetter__'', ''__lookupSetter__'', ''isPrototypeOf'',
     ''propertyIsEnumerable'', ''toString'', ''valueOf'', ''__proto__'', ''toLocaleString'']"

type_synonym 'c structures = "(string \<times> 'c sval) list"

definition structures_init :: "'c \<Rightarrow> 'c \<Rightarrow> 'c \<Rightarrow> 'c structures" where
  "structures_init player queue node =
     [(''Player'', SClass player), (''Queue'', SClass queue), (''Node'', SClass node)]"

definition lookup_structure :: "'c structures \<Rightarrow> string \<Rightarrow> 'c sval" where
  "lookup_structure st name =
     (case map_of st name of
        Some v \<Rightarrow> v
      | None \<Rightarrow> if name \<in> set object_prototype_keys then SInherited name else SUndefined)"

definition struct_truthy :: "'c sval \<Rightarrow> bool" where
  "struct_truthy v = (v \<noteq> SUndefined)"

definition extend :: "'c structures \<Rightarrow> string \<Rightarrow> ('c sval \<Rightarrow> 'c sval) \<Rightarrow> error + ('c sval \<times> 'c structures)" where
  "extend st name extender =
     (if \<not> struct_truthy (lookup_structure st name) then Inl TypeError
      else let extended = extender (lookup_structure st name)
           in Inr (extended, AList.update name extended st))"

definition get :: "'c structures \<Rightarrow> string \<Rightarrow> error + 'c sval" where
  "get st name =
     (let structure = lookup_structure st name
      in if \<not> struct_truthy structure then Inl TypeError else Inr structure)"

section \<open>Predicates of the statements\<close>

text \<open>A string key, as opposed to one of the two symbols.\<close>

definition is_name :: "pkey \<Rightarrow> bool" where
  "is_name k = (case k of Name n \<Rightarrow> True | _ \<Rightarrow> False)"

text \<open>
  An object whose symbol-keyed properties are all non-enumerable, as the tags of \<open>build\<close>
  and \<open>buildUnresolved\<close> are.
\<close>

definition hidden_tags :: "obj \<Rightarrow> bool" where
  "hidden_tags ob = list_all (\<lambda>(k, v, e). e \<longrightarrow> is_name k) ob"

text \<open>A query that is present: a string, or a descriptor object without enumerable symbol keys.\<close>

definition plain_query :: "query \<Rightarrow> bool" where
  "plain_query q = (case q of QUndefined \<Rightarrow> False | QString s \<Rightarrow> True | QObject qo \<Rightarrow> hidden_tags qo)"

text \<open>
  The lookup on the object \<open>ob\<close> at address \<open>a\<close> reaches the selection with the
  candidates \<open>cands\<close>: the manager is there, the object is tagged unresolved, and the
  search of its query is a search result with these tracks.
\<close>

definition searched :: "TrackUtils \<Rightarrow> heap \<Rightarrow> nat \<Rightarrow> obj \<Rightarrow> obj list \<Rightarrow> bool" where
  "searched tu h a ob cands =
     (deref h a = Some (Object ob) \<and> get_prop ob UNRESOLVED_TRACK_SYMBOL = VBool True \<and>
      (case manager tu of
         None \<Rightarrow> False
       | Some search \<Rightarrow>
           (case search (search_query ob) (get_prop ob (Name ''requester'')) of
              Inl e \<Rightarrow> False
            | Inr res \<Rightarrow> loadType res = SEARCH_RESULT \<and> tracks res = cands)))"

text \<open>No author was given, or no candidate passes the test of the first step.\<close>

definition no_original_audio :: "string option \<Rightarrow> string \<Rightarrow> obj list \<Rightarrow> bool" where
  "no_original_audio author t cands =
     (case author of
        Some a \<Rightarrow> a = [] \<or> list_all (\<lambda>x. original_audio a (Some t) x = Inr False) cands
      | None \<Rightarrow> True)"

text \<open>No duration was given, or no candidate passes the test of the second step.\<close>

definition no_same_duration :: "int option \<Rightarrow> obj list \<Rightarrow> bool" where
  "no_same_duration duration cands =
     (case duration of
        Some d \<Rightarrow> d = 0 \<or> list_all (\<lambda>x. same_duration d x = Inr False) cands
      | None \<Rightarrow> True)"

text \<open>The keys of the object literal of \<open>build\<close>, in their order.\<close>

definition track_fields :: "string list" where
  "track_fields = [''track'', ''title'', ''identifier'', ''author'', ''duration'', ''isSeekable'',
     ''isStream'', ''uri'', ''thumbnail'', ''displayThumbnail'', ''requester'']"

text \<open>The value read under a symbol on a value other than \<open>undefined\<close> and \<open>null\<close>.\<close>

definition marker :: "heap \<Rightarrow> jsval \<Rightarrow> pkey \<Rightarrow> jsval" where
  "marker h v k = (case get_member h v k of Inr m \<Rightarrow> m | Inl e \<Rightarrow> VUndefined)"

text \<open>A value whose markers, where present, hold \<open>true\<close>, as every tag this module writes.\<close>

definition well_tagged :: "heap \<Rightarrow> jsval \<Rightarrow> bool" where
  "well_tagged h v = (marker h v TRACK_SYMBOL \<in> {VUndefined, VBool True}
     \<and> marker h v UNRESOLVED_TRACK_SYMBOL \<in> {VUndefined, VBool True})"

definition present :: "jsval \<Rightarrow> bool" where
  "present v = (v \<noteq> VUndefined \<and> v \<noteq> VNull)"

text \<open>Counts that are not negative; the decomposition loop keeps them so.\<close>

definition nonneg_times :: "times \<Rightarrow> bool" where
  "nonneg_times t = (0 \<le> years t \<and> 0 \<le> months t \<and> 0 \<le> weeks t \<and> 0 \<le> days t
     \<and> 0 \<le> hours t \<and> 0 \<le> minutes t \<and> 0 \<le> seconds t)"

text \<open>The two-digit column of the minimal rendering.\<close>

definition two_digits :: "int \<Rightarrow> string" where
  "two_digits v = (if v < 10 then CHR ''0'' # show_int v else show_int v)"

text \<open>
  The unit word of the rendering in words, \<open>v > 1 ? k : k.slice(0, -1)\<close>, the string
  pushed for one unit, and the same string without its blank and followed by what
  separates it from the next unit once the blanks are stripped.
\<close>

definition unit_word :: "string \<Rightarrow> int \<Rightarrow> string" where
  "unit_word k v = (if v > 1 then k else butlast k)"

definition rendered_unit :: "string \<times> int \<Rightarrow> string" where
  "rendered_unit kv = show_int (snd kv) @ '' '' @ unit_word (fst kv) (snd kv)"

definition unit_token :: "string \<Rightarrow> string \<times> int \<Rightarrow> string" where
  "unit_token sep kv = show_int (snd kv) @ unit_word (fst kv) (snd kv) @ sep"

text \<open>
  The tokens of a rendering in words: every unit but the last two is followed by a
  comma, the last but one by \<open>and\<close>, the last by nothing.
\<close>

fun sep_tokens :: "(string \<times> int) list \<Rightarrow> string list" where
  "sep_tokens [] = []"
| "sep_tokens [x] = [unit_token [] x]"
| "sep_tokens [x, y] = [unit_token ''and'' x, unit_token [] y]"
| "sep_tokens (x # y # z # r) = unit_token '','' x # sep_tokens (y # z # r)"

text \<open>The four units a duration below one week is made of, and their weights.\<close>

definition small_units :: "string list" where
  "small_units = [''days'', ''hours'', ''minutes'', ''seconds'']"

definition word_weight :: "string \<Rightarrow> int" where
  "word_weight k = (if k = ''days'' then 86400000 else if k = ''hours'' then 3600000
     else if k = ''minutes'' then 60000 else 1000)"

text \<open>A token of the pattern without dot: digits, then non-digits that do not start with a dot.\<close>

definition plain_token :: "string \<Rightarrow> bool" where
  "plain_token t = (let ds = takeWhile is_digit t; w = dropWhile is_digit t
     in ds \<noteq> [] \<and> w \<noteq> [] \<and> list_all (\<lambda>c. \<not> is_digit c) w \<and> hd w \<noteq> CHR ''.'')"

text \<open>
  The part of a duration that its smallest unit present contributes: the seconds when
  there are any, else the minutes, else the hours, else the days.
\<close>

definition smallest_unit_ms :: "int \<Rightarrow> int" where
  "smallest_unit_ms ms =
     (if ms mod 60000 \<noteq> 0 then ms mod 60000
      else if ms mod 3600000 \<noteq> 0 then ms mod 3600000
      else if ms mod 86400000 \<noteq> 0 then ms mod 86400000
      else ms)"

text \<open>A duration that is a whole number of one unit alone.\<close>

definition single_unit :: "int \<Rightarrow> bool" where
  "single_unit ms = (ms < 60000 \<or> (ms mod 60000 = 0 \<and> ms < 3600000)
     \<or> (ms mod 3600000 = 0 \<and> ms < 86400000) \<or> ms mod 86400000 = 0)"

text \<open>A unit of a rendering below one week: one of the four small units, with a positive count.\<close>

definition valid_unit :: "string \<times> int \<Rightarrow> bool" where
  "valid_unit kv = (fst kv \<in> set small_units \<and> 0 < snd kv)"

definition unit_words :: "string list" where
  "unit_words = [''days'', ''day'', ''hours'', ''hour'', ''minutes'', ''minute'', ''seconds'', ''second'']"

section \<open>Example values\<close>

definition ex_data :: TrackData where
  "ex_data = \<lparr>data_track = ''QAAAjQIAJ'', data_info = Some \<lparr>info_title = ''Song'',
     info_identifier = ''abc'', info_author = ''X'', info_length = 200000, info_isSeekable = True,
     info_isStream = False, info_uri = ''https://www.youtube.com/watch?v=abc''\<rparr>\<rparr>"

definition ex_track :: obj where
  "ex_track = [(Name ''track'', VStr ''QAAAjQIAJ'', True), (Name ''title'', VStr ''Song'', True),
     (Name ''identifier'', VStr ''abc'', True), (Name ''author'', VStr ''X'', True),
     (Name ''duration'', VNum 200000, True), (Name ''isSeekable'', VBool True, True),
     (Name ''isStream'', VBool False, True),
     (Name ''uri'', VStr ''https://www.youtube.com/watch?v=abc'', True),
     (Name ''thumbnail'', VStr ''https://img.youtube.com/vi/abc/default.jpg'', True),
     (Name ''displayThumbnail'', VFn (DisplayThumbnailFn ''abc''), True),
     (Name ''requester'', VUndefined, True), (TRACK_SYMBOL, VBool True, False)]"

definition ex_unresolved :: obj where
  "ex_unresolved = [(Name ''requester'', VUndefined, True), (Name ''resolve'', VFn ResolveFn, True),
     (Name ''title'', VStr ''Song'', True), (UNRESOLVED_TRACK_SYMBOL, VBool True, False)]"

text \<open>A state without manager, one whose search finds \<open>ex_track\<close>, one whose search finds nothing.\<close>

definition ex_tu_none :: TrackUtils where
  "ex_tu_none = \<lparr>trackPartial = VNull, manager = None\<rparr>"

definition ex_tu_found :: TrackUtils where
  "ex_tu_found = \<lparr>trackPartial = VNull,
     manager = Some (\<lambda>q r. Inr \<lparr>loadType = SEARCH_RESULT, tracks = [ex_track], exception = None\<rparr>)\<rparr>"

definition ex_tu_no_matches :: TrackUtils where
  "ex_tu_no_matches = \<lparr>trackPartial = VNull,
     manager = Some (\<lambda>q r. Inr \<lparr>loadType = NO_MATCHES, tracks = [], exception = None\<rparr>)\<rparr>"

text \<open>Two candidates by other authors and with other titles; the second lasts 101 seconds.\<close>

definition ex_cand_far :: obj where
  "ex_cand_far = [(Name ''title'', VStr ''Other'', True), (Name ''author'', VStr ''Y'', True),
     (Name ''duration'', VNum 200000, True), (TRACK_SYMBOL, VBool True, False)]"

definition ex_cand_near :: obj where
  "ex_cand_near = [(Name ''title'', VStr ''Another'', True), (Name ''author'', VStr ''Z'', True),
     (Name ''duration'', VNum 101000, True), (TRACK_SYMBOL, VBool True, False)]"

text \<open>A descriptor with author, title and duration, and a search that returns the two candidates.\<close>

definition ex_unresolved_full :: obj where
  "ex_unresolved_full = [(Name ''requester'', VUndefined, True), (Name ''resolve'', VFn ResolveFn, True),
     (Name ''title'', VStr ''Song'', True), (Name ''author'', VStr ''X'', True),
     (Name ''duration'', VNum 100000, True), (UNRESOLVED_TRACK_SYMBOL, VBool True, False)]"

definition ex_tu_two :: TrackUtils where
  "ex_tu_two = \<lparr>trackPartial = VNull,
     manager = Some (\<lambda>q r. Inr \<lparr>loadType = SEARCH_RESULT, tracks = [ex_cand_far, ex_cand_near],
       exception = None\<rparr>)\<rparr>"

text \<open>A store with an array whose one element is an object tagged with the number 1.\<close>

definition ex_heap_odd_tag :: heap where
  "ex_heap_odd_tag = [Array [VRef 1], Object [(TRACK_SYMBOL, VNum 1, False)]]"

text \<open>
  A store with an array holding \<open>null\<close>, one holding \<open>undefined\<close>, and one holding a
  track and then \<open>null\<close>.
\<close>

definition ex_heap_null :: heap where
  "ex_heap_null = [Array [VNull], Array [VUndefined], Array [VRef 3, VNull], Object ex_track]"

text \<open>
  A store with a track, an unresolved track, the array of both, an empty array and an
  object without tags.
\<close>

definition ex_heap_tracks :: heap where
  "ex_heap_tracks = [Object ex_track, Object ex_unresolved, Array [VRef 0, VRef 1], Array [],
     Object [(Name ''title'', VStr ''Song'', True)]]"

text \<open>A store with a whitelist array.\<close>

definition ex_heap_partial :: heap where
  "ex_heap_partial = [Array [VStr ''title''], Object ex_track]"

text \<open>A transform of the registry: it wraps a class and leaves any other value as it is.\<close>

definition ex_wrap :: "nat sval \<Rightarrow> nat sval" where
  "ex_wrap v = (case v of SClass c \<Rightarrow> SClass (c + 10) | other \<Rightarrow> other)"

definition ex_structures :: "nat structures" where
  "ex_structures = structures_init 0 1 2"

section \<open>Properties of the object operations\<close>

lemma map_of_set_prop: "map_of (set_prop ob k v) k' = (if k' = k then Some (v, case map_of ob k of Some (v0, e) \<Rightarrow> e | None \<Rightarrow> True) else map_of ob k')"
  by (induction ob k v rule: set_prop.induct) auto

lemma get_prop_set_prop: "get_prop (set_prop ob k v) k' = (if k' = k then v else get_prop ob k')"
  by (simp add: get_prop_def map_of_set_prop)

lemma map_of_defineProperty: "map_of (defineProperty ob k v) k' = (if k' = k then Some (v, case map_of ob k of Some (v0, e) \<Rightarrow> e | None \<Rightarrow> False) else map_of ob k')"
  by (induction ob k v rule: defineProperty.induct) auto

lemma get_prop_defineProperty: "get_prop (defineProperty ob k v) k' = (if k' = k then v else get_prop ob k')"
  by (simp add: get_prop_def map_of_defineProperty)

lemma get_prop_object_assign_symbol:
  "hidden_tags r \<Longrightarrow> \<not> is_name k \<Longrightarrow> get_prop (object_assign t r) k = get_prop t k"
proof (induction r arbitrary: t)
  case Nil
  then show ?case by (simp add: object_assign_def)
next
  case (Cons p r)
  obtain k' v e where p: "p = (k', v, e)" by (cases p)
  from Cons.prems have hr: "hidden_tags r" and pe: "e \<longrightarrow> is_name k'"
    by (auto simp: hidden_tags_def p)
  have step: "object_assign t (p # r) = object_assign (if e then set_prop t k' v else t) r"
    by (simp add: object_assign_def p)
  show ?case
    using Cons.IH[OF hr Cons.prems(2)] pe Cons.prems(2)
    by (auto simp: step get_prop_set_prop)
qed

lemma fold_delete_names:
  "fold (\<lambda>prop t. delete_prop t (Name prop)) names t = filter (\<lambda>(k, ve). k \<notin> Name ` set names) t"
proof (induction names arbitrary: t)
  case Nil
  then show ?case by simp
next
  case (Cons n names)
  have "fold (\<lambda>prop t. delete_prop t (Name prop)) (n # names) t
      = filter (\<lambda>(k, ve). k \<notin> Name ` set names) (delete_prop t (Name n))"
    by (simp add: Cons.IH)
  also have "\<dots> = filter (\<lambda>(k, ve). k \<notin> Name ` set (n # names)) t"
    by (auto simp: delete_prop_def intro!: filter_cong)
  finally show ?case .
qed

lemma set_getOwnPropertyNames: "set (getOwnPropertyNames ob) = {n. Name n \<in> fst ` set ob}"
  by (induction ob rule: getOwnPropertyNames.induct) auto

lemma cleared_filter:
  "fold (\<lambda>prop t. delete_prop t (Name prop)) (getOwnPropertyNames ob) ob = filter (\<lambda>(k, ve). \<not> is_name k) ob"
  unfolding fold_delete_names
  by (rule filter_cong) (force simp: set_getOwnPropertyNames is_name_def image_iff split: pkey.splits)+

lemma map_of_filter_key: "P k \<Longrightarrow> map_of (filter (\<lambda>(k, ve). P k) ob) k = map_of ob k"
  by (induction ob) auto

lemma get_prop_cleared: "\<not> is_name k \<Longrightarrow> get_prop (filter (\<lambda>(k, ve). \<not> is_name k) ob) k = get_prop ob k"
  using map_of_filter_key[of "\<lambda>k. \<not> is_name k" k ob] by (simp add: get_prop_def)

lemma getOwnPropertyNames_cleared: "getOwnPropertyNames (filter (\<lambda>(k, ve). \<not> is_name k) ob) = []"
  by (induction ob rule: getOwnPropertyNames.induct) (auto simp: is_name_def)

lemma getClosestTrack_tagged:
  "getClosestTrack tu h (VRef a) = Inr r \<Longrightarrow>
     \<exists>ob. deref h a = Some (Object ob) \<and> get_prop ob UNRESOLVED_TRACK_SYMBOL = VBool True"
  by (auto simp: getClosestTrack_def isUnresolvedTrack_def get_member_def
      split: option.splits sum.splits bool.splits cell.splits if_splits)

lemma resolve_success:
  assumes "getClosestTrack tu h (VRef a) = Inr resolved" "deref h a = Some (Object this)"
  shows "resolve tu h a = (Inr (), h[a := Object (case resolved of None \<Rightarrow> filter (\<lambda>(k, ve). \<not> is_name k) this
           | Some r \<Rightarrow> object_assign (filter (\<lambda>(k, ve). \<not> is_name k) this) r)])"
  using assms by (simp add: resolve_def cleared_filter Let_def)

lemma deref_update: "a < length h \<Longrightarrow> deref (h[a := c]) a = Some c"
  by (simp add: deref_def)

lemma deref_Some_less: "deref h a = Some c \<Longrightarrow> a < length h"
  by (simp add: deref_def split: if_splits)

lemma buildUnresolved_tags:
  assumes "buildUnresolved q requester = Inr u" "plain_query q"
  shows "get_prop u UNRESOLVED_TRACK_SYMBOL = VBool True \<and> get_prop u TRACK_SYMBOL = VUndefined"
proof (cases q)
  case QUndefined
  with assms show ?thesis by (simp add: buildUnresolved_def)
next
  case (QString s)
  with assms show ?thesis
    by (auto simp: buildUnresolved_def get_prop_def)
next
  case (QObject qo)
  with assms have hq: "hidden_tags qo" by (simp add: plain_query_def)
  have hb: "hidden_tags [(Name ''requester'', requester, True), (Name ''resolve'', VFn ResolveFn, True)]"
    by (simp add: hidden_tags_def is_name_def)
  from assms QObject have u: "u = defineProperty (object_assign (object_assign [] [(Name ''requester'', requester, True), (Name ''resolve'', VFn ResolveFn, True)]) qo)
                    UNRESOLVED_TRACK_SYMBOL (VBool True)"
    by (simp add: buildUnresolved_def)
  show ?thesis
    unfolding u
    by (simp add: get_prop_defineProperty get_prop_object_assign_symbol[OF hq] get_prop_object_assign_symbol[OF hb] is_name_def)
       (simp add: get_prop_def)
qed

lemma hidden_tags_defineProperty_new:
  "hidden_tags ob \<Longrightarrow> hidden_tags (defineProperty ob k v)"
  by (induction ob k v rule: defineProperty.induct) (auto simp: hidden_tags_def)

lemma hidden_tags_filter: "hidden_tags ob \<Longrightarrow> hidden_tags (filter P ob)"
  by (simp add: hidden_tags_def list_all_iff)

lemma fold_project:
  "fold (\<lambda>key t. if P key then t else delete_prop t (Name key)) keys t =
     filter (\<lambda>(k, ve). \<forall>key\<in>set keys. k = Name key \<longrightarrow> P key) t"
proof (induction keys arbitrary: t)
  case Nil
  then show ?case by simp
next
  case (Cons n keys)
  have "fold (\<lambda>key t. if P key then t else delete_prop t (Name key)) (n # keys) t
      = filter (\<lambda>(k, ve). \<forall>key\<in>set keys. k = Name key \<longrightarrow> P key) (if P n then t else delete_prop t (Name n))"
    by (simp add: Cons.IH)
  also have "\<dots> = filter (\<lambda>(k, ve). \<forall>key\<in>set (n # keys). k = Name key \<longrightarrow> P key) t"
    by (auto simp: delete_prop_def intro!: filter_cong)
  finally show ?case .
qed

lemma build_hidden_tags: "build tu h d requester = Inr t \<Longrightarrow> hidden_tags t"
proof -
  assume b: "build tu h d requester = Inr t"
  have lit: "hidden_tags (track_literal dd info requester)" for dd info
    by (simp add: hidden_tags_def track_literal_def is_name_def)
  from b show ?thesis
    by (auto simp: build_def Let_def project_def fold_project
        intro!: hidden_tags_defineProperty_new hidden_tags_filter lit
        split: option.splits if_splits)
qed

section \<open>Properties of TrackUtils\<close>

lemma get_prop_object_assign_other:
  "k \<notin> fst ` set r \<Longrightarrow> get_prop (object_assign t r) k = get_prop t k"
proof (induction r arbitrary: t)
  case Nil
  then show ?case by (simp add: object_assign_def)
next
  case (Cons p r)
  obtain k' v e where p: "p = (k', v, e)" by (cases p)
  have step: "object_assign t (p # r) = object_assign (if e then set_prop t k' v else t) r"
    by (simp add: object_assign_def p)
  from Cons.prems have "k \<notin> fst ` set r" "k \<noteq> k'" by (auto simp: p)
  then show ?case
    using Cons.IH[of "if e then set_prop t k' v else t"]
    by (simp add: step get_prop_set_prop)
qed

lemma get_prop_object_assign:
  "distinct (map fst r) \<Longrightarrow> (k, v, True) \<in> set r \<Longrightarrow> get_prop (object_assign t r) k = v"
proof (induction r arbitrary: t)
  case Nil
  then show ?case by simp
next
  case (Cons p r)
  obtain k' v' e where p: "p = (k', v', e)" by (cases p)
  have step: "object_assign t (p # r) = object_assign (if e then set_prop t k' v' else t) r"
    by (simp add: object_assign_def p)
  show ?case
  proof (cases "(k, v, True) = p")
    case True
    with Cons.prems p have "k \<notin> fst ` set r" "k' = k" "v' = v" "e" by auto
    then show ?thesis
      by (simp add: step get_prop_object_assign_other get_prop_set_prop)
  next
    case False
    with Cons.prems have "(k, v, True) \<in> set r" "distinct (map fst r)" by auto
    then show ?thesis using Cons.IH by (simp add: step)
  qed
qed

lemma keys_set_prop: "fst ` set (set_prop t k v) = insert k (fst ` set t)"
  by (induction t k v rule: set_prop.induct) auto

lemma getOwnPropertyNames_append:
  "getOwnPropertyNames (xs @ ys) = getOwnPropertyNames xs @ getOwnPropertyNames ys"
  by (induction xs rule: getOwnPropertyNames.induct) auto

lemma getOwnPropertyNames_set_prop:
  "getOwnPropertyNames (set_prop t k v) =
     (if k \<in> fst ` set t then getOwnPropertyNames t
      else getOwnPropertyNames t @ (case k of Name n \<Rightarrow> [n] | _ \<Rightarrow> []))"
proof (induction t k v rule: set_prop.induct)
  case (1 k v)
  then show ?case by (cases k) auto
next
  case (2 k' v' e ps k v)
  then show ?case by (cases k') (auto simp: image_iff)
qed

lemma getOwnPropertyNames_object_assign:
  "distinct (map fst r) \<Longrightarrow> \<forall>n. Name n \<in> fst ` set r \<longrightarrow> Name n \<notin> fst ` set t \<Longrightarrow>
     getOwnPropertyNames (object_assign t r) = getOwnPropertyNames t @ object_keys r"
proof (induction r arbitrary: t)
  case Nil
  then show ?case by (simp add: object_assign_def)
next
  case (Cons p r)
  obtain k v e where p: "p = (k, v, e)" by (cases p)
  let ?t = "if e then set_prop t k v else t"
  have step: "object_assign t (p # r) = object_assign ?t r"
    by (simp add: object_assign_def p)
  from Cons.prems have d: "distinct (map fst r)" and kr: "k \<notin> fst ` set r"
    by (auto simp: p)
  have fresh: "\<forall>n. Name n \<in> fst ` set r \<longrightarrow> Name n \<notin> fst ` set ?t"
    using Cons.prems(2) kr by (auto simp: keys_set_prop p)
  have ih: "getOwnPropertyNames (object_assign ?t r) = getOwnPropertyNames ?t @ object_keys r"
    by (rule Cons.IH[OF d fresh])
  show ?case
  proof (cases k)
    case (Name n)
    with Cons.prems(2) have "Name n \<notin> fst ` set t" by (auto simp: p)
    then show ?thesis
      unfolding step ih by (simp add: p Name getOwnPropertyNames_set_prop)
  next
    case TRACK_SYMBOL
    then show ?thesis
      unfolding step ih by (simp add: p getOwnPropertyNames_set_prop)
  next
    case UNRESOLVED_TRACK_SYMBOL
    then show ?thesis
      unfolding step ih by (simp add: p getOwnPropertyNames_set_prop)
  qed
qed

text \<open>
  What \<open>resolve\<close> does to the tags, on every object built by \<open>buildUnresolved\<close>:
  \<open>Object.getOwnPropertyNames\<close> lists no symbol, so the unresolved tag is not among the
  deleted properties, and \<open>Object.assign\<close> copies enumerable properties only, so the
  hidden tag of a built track is not among the copied ones. After a successful
  \<open>resolve\<close> the object at the same address is therefore still tagged unresolved and
  has no resolved tag.
\<close>

lemma resolve_tags_untouched:
  assumes "buildUnresolved q requester = Inr u" and "plain_query q"
    and "deref h a = Some (Object u)"
    and "getClosestTrack tu h (VRef a) = Inr resolved"
    and "case resolved of Some r \<Rightarrow> hidden_tags r | None \<Rightarrow> True"
  shows "\<exists>h'. resolve tu h a = (Inr (), h') \<and> length h' = length h
           \<and> isTrack h' (VRef a) = Inr False \<and> isUnresolvedTrack h' (VRef a) = Inr True"
proof -
  let ?c = "filter (\<lambda>(k, ve). \<not> is_name k) u"
  let ?o = "case resolved of None \<Rightarrow> ?c | Some r \<Rightarrow> object_assign ?c r"
  have r: "resolve tu h a = (Inr (), h[a := Object ?o])"
    using resolve_success[OF assms(4) assms(3)] .
  have sym: "\<not> is_name k \<Longrightarrow> get_prop ?o k = get_prop u k" for k
    using assms(5) by (cases resolved) (simp_all add: get_prop_cleared get_prop_object_assign_symbol)
  have d: "deref (h[a := Object ?o]) a = Some (Object ?o)"
    using deref_update[OF deref_Some_less[OF assms(3)]] .
  have "isTrack (h[a := Object ?o]) (VRef a) = Inr False"
    using buildUnresolved_tags[OF assms(1,2)] sym[of TRACK_SYMBOL]
    by (simp add: isTrack_def get_member_def d is_name_def)
  moreover have "isUnresolvedTrack (h[a := Object ?o]) (VRef a) = Inr True"
    using buildUnresolved_tags[OF assms(1,2)] sym[of UNRESOLVED_TRACK_SYMBOL]
    by (simp add: isUnresolvedTrack_def get_member_def d is_name_def)
  ultimately show ?thesis using r by simp
qed

lemma resolve_tags_untouched_example:
  "buildUnresolved (QString ''Song'') VUndefined = Inr ex_unresolved
   \<and> plain_query (QString ''Song'')
   \<and> deref [Object ex_unresolved] 0 = Some (Object ex_unresolved)
   \<and> getClosestTrack ex_tu_found [Object ex_unresolved] (VRef 0) = Inr (Some ex_track)
   \<and> hidden_tags ex_track
   \<and> (\<exists>h'. resolve ex_tu_found [Object ex_unresolved] 0 = (Inr (), h') \<and> length h' = length [Object ex_unresolved]
           \<and> isTrack h' (VRef 0) = Inr False \<and> isUnresolvedTrack h' (VRef 0) = Inr True)"
proof -
  have 1: "buildUnresolved (QString ''Song'') VUndefined = Inr ex_unresolved" by code_simp
  have 2: "plain_query (QString ''Song'')" by code_simp
  have 3: "deref [Object ex_unresolved] 0 = Some (Object ex_unresolved)" by code_simp
  have 4: "getClosestTrack ex_tu_found [Object ex_unresolved] (VRef 0) = Inr (Some ex_track)" by code_simp
  have 5: "hidden_tags ex_track" by code_simp
  show ?thesis
    using 1 2 3 4 5 resolve_tags_untouched[OF 1 2 3 4] by simp
qed

text \<open>
  C1. A successful \<open>resolve\<close> turns the fields of the object into those of a Track and
  misses the tags, so the object is not a Track for the capability checks. The
  unresolved track built from the string \<open>Song\<close> is resolved with a track built by
  \<open>build\<close>. Afterwards the object at the same address holds the unresolved tag
  followed by the string-keyed properties of the resolved track: the eleven fields of a
  Track, and no \<open>resolve\<close> any more. Yet \<open>isTrack\<close> is false on it and
  \<open>isUnresolvedTrack\<close> is true.
\<close>

theorem resolve_leaves_unresolved_tag:
  "build ex_tu_none [] (Some ex_data) VUndefined = Inr ex_track
   \<and> buildUnresolved (QString ''Song'') VUndefined = Inr ex_unresolved
   \<and> resolve ex_tu_found [Object ex_unresolved] 0
       = (Inr (), [Object ((UNRESOLVED_TRACK_SYMBOL, VBool True, False) # filter (\<lambda>(k, ve). is_name k) ex_track)])
   \<and> getOwnPropertyNames ((UNRESOLVED_TRACK_SYMBOL, VBool True, False) # filter (\<lambda>(k, ve). is_name k) ex_track)
       = track_fields
   \<and> get_prop ex_unresolved (Name ''resolve'') = VFn ResolveFn
   \<and> get_member (snd (resolve ex_tu_found [Object ex_unresolved] 0)) (VRef 0) (Name ''resolve'') = Inr VUndefined
   \<and> get_member (snd (resolve ex_tu_found [Object ex_unresolved] 0)) (VRef 0) TRACK_SYMBOL = Inr VUndefined
   \<and> isTrack (snd (resolve ex_tu_found [Object ex_unresolved] 0)) (VRef 0) = Inr False
   \<and> isUnresolvedTrack (snd (resolve ex_tu_found [Object ex_unresolved] 0)) (VRef 0) = Inr True"
  by code_simp

text \<open>
  C2, as the code has it. \<open>resolve\<close> awaits the lookup before it deletes anything. When
  the lookup throws, \<open>resolve\<close> throws the same error and the store is unchanged, so the
  object keeps all its fields; whenever \<open>resolve\<close> throws the store is unchanged. When
  the lookup returns a track \<open>r\<close>, the object at the same address is replaced by one
  whose string keys are the enumerable string keys of \<open>r\<close>, in their order, and that
  holds the value of every enumerable property of \<open>r\<close>.
\<close>

theorem resolve_failure_leaves_object_intact:
  "(getClosestTrack tu h (VRef a) = Inl e \<longrightarrow> resolve tu h a = (Inl e, h))
   \<and> (resolve tu h a = (Inl e, h') \<longrightarrow> h' = h)
   \<and> (getClosestTrack tu h (VRef a) = Inr (Some r) \<and> distinct (map fst r) \<longrightarrow>
        (\<exists>this ob. deref h a = Some (Object this) \<and> resolve tu h a = (Inr (), h[a := Object ob])
           \<and> getOwnPropertyNames ob = object_keys r
           \<and> (\<forall>(k, v, en) \<in> set r. en \<longrightarrow> get_prop ob k = v)))"
proof (intro conjI impI)
  assume "getClosestTrack tu h (VRef a) = Inl e"
  then show "resolve tu h a = (Inl e, h)" by (simp add: resolve_def)
next
  assume "resolve tu h a = (Inl e, h')"
  then show "h' = h"
    by (auto simp: resolve_def Let_def split: sum.splits option.splits cell.splits)
next
  assume a: "getClosestTrack tu h (VRef a) = Inr (Some r) \<and> distinct (map fst r)"
  then obtain this where t: "deref h a = Some (Object this)"
    using getClosestTrack_tagged by blast
  let ?c = "filter (\<lambda>(k, ve). \<not> is_name k) this"
  have r: "resolve tu h a = (Inr (), h[a := Object (object_assign ?c r)])"
    using resolve_success[OF _ t, of tu "Some r"] a by simp
  have nonames: "\<forall>n. Name n \<in> fst ` set r \<longrightarrow> Name n \<notin> fst ` set ?c"
    by (auto simp: is_name_def)
  have names: "getOwnPropertyNames (object_assign ?c r) = object_keys r"
    using getOwnPropertyNames_object_assign[OF _ nonames] a
    by (simp add: getOwnPropertyNames_cleared)
  have vals: "\<forall>(k, v, en) \<in> set r. en \<longrightarrow> get_prop (object_assign ?c r) k = v"
    using get_prop_object_assign[of r _ _ ?c] a by auto
  show "\<exists>this ob. deref h a = Some (Object this) \<and> resolve tu h a = (Inr (), h[a := Object ob])
           \<and> getOwnPropertyNames ob = object_keys r
           \<and> (\<forall>(k, v, en) \<in> set r. en \<longrightarrow> get_prop ob k = v)"
    using t r names vals by blast
qed

theorem resolve_failure_leaves_object_intact_witness:
  "getClosestTrack ex_tu_no_matches [Object ex_unresolved] (VRef 0) = Inl (Thrown ''No tracks found.'')
   \<and> resolve ex_tu_no_matches [Object ex_unresolved] 0 = (Inl (Thrown ''No tracks found.''), [Object ex_unresolved])
   \<and> getClosestTrack ex_tu_found [Object ex_unresolved] (VRef 0) = Inr (Some ex_track)
   \<and> distinct (map fst ex_track)
   \<and> (\<exists>this ob. deref [Object ex_unresolved] 0 = Some (Object this)
         \<and> resolve ex_tu_found [Object ex_unresolved] 0 = (Inr (), [Object ex_unresolved][0 := Object ob])
         \<and> getOwnPropertyNames ob = object_keys ex_track
         \<and> (\<forall>(k, v, en) \<in> set ex_track. en \<longrightarrow> get_prop ob k = v))"
proof -
  have 1: "getClosestTrack ex_tu_no_matches [Object ex_unresolved] (VRef 0) = Inl (Thrown ''No tracks found.'')"
    by code_simp
  have 2: "getClosestTrack ex_tu_found [Object ex_unresolved] (VRef 0) = Inr (Some ex_track)"
    by code_simp
  have 3: "distinct (map fst ex_track)" by code_simp
  note a = resolve_failure_leaves_object_intact[of ex_tu_no_matches "[Object ex_unresolved]" 0
      "Thrown ''No tracks found.''" "[Object ex_unresolved]" "[]"]
  note b = resolve_failure_leaves_object_intact[of ex_tu_found "[Object ex_unresolved]" 0
      RangeError "[]" ex_track]
  show ?thesis using 1 2 3 a b by blast
qed

text \<open>
  C2 as stated fails: with a search that finds nothing, and with no manager, \<open>resolve\<close>
  throws and the object still has all its own fields.
\<close>

theorem resolve_failure_counterexample:
  "resolve ex_tu_no_matches [Object ex_unresolved] 0 = (Inl (Thrown ''No tracks found.''), [Object ex_unresolved])
   \<and> resolve ex_tu_none [Object ex_unresolved] 0 = (Inl RangeError, [Object ex_unresolved])
   \<and> getOwnPropertyNames ex_unresolved = [''requester'', ''resolve'', ''title'']"
  by code_simp

section \<open>Properties of the closest-track selection\<close>

lemma find_first_split:
  "(\<forall>x\<in>set pre. P x = Inr False) \<Longrightarrow> P c = Inr True \<Longrightarrow> find_first P (pre @ c # post) = Inr (Some c)"
  by (induction pre) auto

lemma find_first_none:
  "(\<forall>x\<in>set xs. P x = Inr False) \<Longrightarrow> find_first P xs = Inr None"
  by (induction xs) auto

lemma select_step1:
  assumes "a \<noteq> []" "\<forall>x\<in>set pre. original_audio a (Some t) x = Inr False" "original_audio a (Some t) c = Inr True"
  shows "select_track (Some a) (Some t) duration (pre @ c # post) = Inr (Some c)"
  using find_first_split[of pre "original_audio a (Some t)" c post] assms
  by (simp add: select_track_def)

lemma select_no_step1:
  assumes "no_original_audio author t cands"
  shows "select_track author (Some t) duration cands =
    (case (case duration of None \<Rightarrow> Inr None | Some d \<Rightarrow> if d = 0 then Inr None else find_first (same_duration d) cands) of
       Inl e \<Rightarrow> Inl e | Inr (Some s) \<Rightarrow> Inr (Some s) | Inr None \<Rightarrow> Inr (case cands of [] \<Rightarrow> None | c # cs \<Rightarrow> Some c))"
  using assms find_first_none[of cands "original_audio (the author) (Some t)"]
  by (auto simp: select_track_def no_original_audio_def list_all_iff split: option.splits)

lemma select_step2:
  assumes "no_original_audio author t (pre @ c # post)" "d \<noteq> 0"
    "\<forall>x\<in>set pre. same_duration d x = Inr False" "same_duration d c = Inr True"
  shows "select_track author (Some t) (Some d) (pre @ c # post) = Inr (Some c)"
  using find_first_split[of pre "same_duration d" c post] assms
  by (simp add: select_no_step1)

lemma select_step3:
  assumes "no_original_audio author t cands" "no_same_duration duration cands"
  shows "select_track author (Some t) duration cands = Inr (case cands of [] \<Rightarrow> None | c # cs \<Rightarrow> Some c)"
  using assms find_first_none[of cands "same_duration (the duration)"]
  by (auto simp: select_no_step1 no_same_duration_def list_all_iff split: option.splits)

lemma getClosestTrack_selects:
  assumes "searched tu h a ob cands"
  shows "getClosestTrack tu h (VRef a) =
           select_track (str_prop ob ''author'') (str_prop ob ''title'') (num_prop ob ''duration'') cands"
  using assms
  by (auto simp: searched_def getClosestTrack_def isUnresolvedTrack_def get_member_def
      split: option.splits sum.splits)

text \<open>
  C3, as the code has it. The three steps are tried in order and each falls through to
  the next when it finds nothing. With a title \<open>t\<close>: (1) when an author is given, the
  first candidate that passes the author-or-title test is returned; (2) when no author
  is given or no candidate passes that test, and a duration is given, the first
  candidate within 1500 ms of it, bounds included, is returned; (3) when neither step
  returns a candidate, the first candidate is returned, or \<open>undefined\<close> for an empty
  list. The last two conjuncts say what the two tests are.
\<close>

theorem getClosestTrack_falls_through:
  assumes "searched tu h a ob cands" and "str_prop ob ''title'' = Some t"
  shows
   "(str_prop ob ''author'' = Some au \<and> au \<noteq> [] \<and> cands = pre @ c # post
       \<and> (\<forall>x\<in>set pre. original_audio au (Some t) x = Inr False) \<and> original_audio au (Some t) c = Inr True
     \<longrightarrow> getClosestTrack tu h (VRef a) = Inr (Some c))
    \<and> (no_original_audio (str_prop ob ''author'') t cands \<and> num_prop ob ''duration'' = Some d \<and> d \<noteq> 0
         \<and> cands = pre @ c # post
         \<and> (\<forall>x\<in>set pre. same_duration d x = Inr False) \<and> same_duration d c = Inr True
     \<longrightarrow> getClosestTrack tu h (VRef a) = Inr (Some c))
    \<and> (no_original_audio (str_prop ob ''author'') t cands \<and> no_same_duration (num_prop ob ''duration'') cands
     \<longrightarrow> getClosestTrack tu h (VRef a) = Inr (case cands of [] \<Rightarrow> None | c # cs \<Rightarrow> Some c))
    \<and> original_audio au (Some t) x =
         Inr (test_ci au (str_prop x ''author'') \<or> test_ci (au @ '' - Topic'') (str_prop x ''author'')
              \<or> test_ci t (str_prop x ''title''))
    \<and> same_duration d x =
         Inr (\<exists>td. num_prop x ''duration'' = Some td \<and> d - 1500 \<le> td \<and> td \<le> d + 1500)"
proof -
  note sel = getClosestTrack_selects[OF assms(1), unfolded assms(2)]
  have 1: "str_prop ob ''author'' = Some au \<and> au \<noteq> [] \<and> cands = pre @ c # post
       \<and> (\<forall>x\<in>set pre. original_audio au (Some t) x = Inr False) \<and> original_audio au (Some t) c = Inr True
     \<longrightarrow> getClosestTrack tu h (VRef a) = Inr (Some c)"
    using select_step1[of au pre t c "num_prop ob ''duration''" post] by (auto simp: sel)
  have 2: "no_original_audio (str_prop ob ''author'') t cands \<and> num_prop ob ''duration'' = Some d \<and> d \<noteq> 0
         \<and> cands = pre @ c # post
         \<and> (\<forall>x\<in>set pre. same_duration d x = Inr False) \<and> same_duration d c = Inr True
     \<longrightarrow> getClosestTrack tu h (VRef a) = Inr (Some c)"
    using select_step2[of "str_prop ob ''author''" t pre c post d] by (auto simp: sel)
  have 3: "no_original_audio (str_prop ob ''author'') t cands \<and> no_same_duration (num_prop ob ''duration'') cands
     \<longrightarrow> getClosestTrack tu h (VRef a) = Inr (case cands of [] \<Rightarrow> None | c # cs \<Rightarrow> Some c)"
    using select_step3[of "str_prop ob ''author''" t cands "num_prop ob ''duration''"] by (simp add: sel)
  have 4: "original_audio au (Some t) x =
         Inr (test_ci au (str_prop x ''author'') \<or> test_ci (au @ '' - Topic'') (str_prop x ''author'')
              \<or> test_ci t (str_prop x ''title''))"
    by (simp add: original_audio_def)
  have 5: "same_duration d x =
         Inr (\<exists>td. num_prop x ''duration'' = Some td \<and> d - 1500 \<le> td \<and> td \<le> d + 1500)"
    by (auto simp: same_duration_def split: option.splits)
  show ?thesis using 1 2 3 4 5 by blast
qed

theorem getClosestTrack_falls_through_witness:
  "searched ex_tu_found [Object ex_unresolved_full] 0 ex_unresolved_full [ex_track]
   \<and> searched ex_tu_two [Object ex_unresolved_full] 0 ex_unresolved_full [ex_cand_far, ex_cand_near]
   \<and> searched ex_tu_two [Object ex_unresolved] 0 ex_unresolved [ex_cand_far, ex_cand_near]
   \<and> str_prop ex_unresolved_full ''title'' = Some ''Song'' \<and> str_prop ex_unresolved ''title'' = Some ''Song''
   \<and> str_prop ex_unresolved_full ''author'' = Some ''X''
   \<and> original_audio ''X'' (Some ''Song'') ex_track = Inr True
   \<and> getClosestTrack ex_tu_found [Object ex_unresolved_full] (VRef 0) = Inr (Some ex_track)
   \<and> no_original_audio (str_prop ex_unresolved_full ''author'') ''Song'' [ex_cand_far, ex_cand_near]
   \<and> num_prop ex_unresolved_full ''duration'' = Some 100000
   \<and> same_duration 100000 ex_cand_far = Inr False \<and> same_duration 100000 ex_cand_near = Inr True
   \<and> getClosestTrack ex_tu_two [Object ex_unresolved_full] (VRef 0) = Inr (Some ex_cand_near)
   \<and> no_original_audio (str_prop ex_unresolved ''author'') ''Song'' [ex_cand_far, ex_cand_near]
   \<and> no_same_duration (num_prop ex_unresolved ''duration'') [ex_cand_far, ex_cand_near]
   \<and> getClosestTrack ex_tu_two [Object ex_unresolved] (VRef 0) = Inr (Some ex_cand_far)"
proof -
  have s1: "searched ex_tu_found [Object ex_unresolved_full] 0 ex_unresolved_full [ex_track]" by code_simp
  have s2: "searched ex_tu_two [Object ex_unresolved_full] 0 ex_unresolved_full [ex_cand_far, ex_cand_near]" by code_simp
  have s3: "searched ex_tu_two [Object ex_unresolved] 0 ex_unresolved [ex_cand_far, ex_cand_near]" by code_simp
  have t1: "str_prop ex_unresolved_full ''title'' = Some ''Song''" by code_simp
  have t3: "str_prop ex_unresolved ''title'' = Some ''Song''" by code_simp
  have a1: "str_prop ex_unresolved_full ''author'' = Some ''X''" by code_simp
  have o1: "original_audio ''X'' (Some ''Song'') ex_track = Inr True" by code_simp
  have n2: "no_original_audio (str_prop ex_unresolved_full ''author'') ''Song'' [ex_cand_far, ex_cand_near]" by code_simp
  have d2: "num_prop ex_unresolved_full ''duration'' = Some 100000" by code_simp
  have f2: "same_duration 100000 ex_cand_far = Inr False" by code_simp
  have g2: "same_duration 100000 ex_cand_near = Inr True" by code_simp
  have n3: "no_original_audio (str_prop ex_unresolved ''author'') ''Song'' [ex_cand_far, ex_cand_near]" by code_simp
  have m3: "no_same_duration (num_prop ex_unresolved ''duration'') [ex_cand_far, ex_cand_near]" by code_simp
  have r1: "getClosestTrack ex_tu_found [Object ex_unresolved_full] (VRef 0) = Inr (Some ex_track)"
    using getClosestTrack_falls_through[OF s1 t1, where au = "''X''" and pre = "[]" and c = ex_track and post = "[]"] a1 o1 by simp
  have r2: "getClosestTrack ex_tu_two [Object ex_unresolved_full] (VRef 0) = Inr (Some ex_cand_near)"
    using getClosestTrack_falls_through[OF s2 t1, where d = 100000 and pre = "[ex_cand_far]" and c = ex_cand_near and post = "[]"] n2 d2 f2 g2
    by simp
  have r3: "getClosestTrack ex_tu_two [Object ex_unresolved] (VRef 0) = Inr (Some ex_cand_far)"
    using getClosestTrack_falls_through[OF s3 t3] n3 m3 by simp
  show ?thesis
    using s1 s2 s3 t1 t3 a1 o1 n2 d2 f2 g2 n3 m3 r1 r2 r3 by simp
qed

text \<open>
  C3 as stated fails: an author is given, neither candidate passes the author-or-title
  test, and the lookup returns the second candidate, chosen by its duration.
\<close>

theorem getClosestTrack_duration_counterexample:
  "buildUnresolved (QObject [(Name ''title'', VStr ''Song'', True), (Name ''author'', VStr ''X'', True),
      (Name ''duration'', VNum 100000, True)]) VUndefined = Inr ex_unresolved_full
   \<and> str_prop ex_unresolved_full ''author'' = Some ''X''
   \<and> original_audio ''X'' (Some ''Song'') ex_cand_far = Inr False
   \<and> original_audio ''X'' (Some ''Song'') ex_cand_near = Inr False
   \<and> same_duration 100000 ex_cand_far = Inr False
   \<and> same_duration 100000 ex_cand_near = Inr True
   \<and> getClosestTrack ex_tu_two [Object ex_unresolved_full] (VRef 0) = Inr (Some ex_cand_near)"
  by code_simp

section \<open>Properties of the field whitelist\<close>

lemma defineProperty_new: "k \<notin> fst ` set ob \<Longrightarrow> defineProperty ob k v = ob @ [(k, v, False)]"
  by (induction ob k v rule: defineProperty.induct) auto

lemma object_keys_append_symbol: "\<not> is_name k \<Longrightarrow> object_keys (ob @ [(k, v, e)]) = object_keys ob"
  by (induction ob rule: object_keys.induct) (cases k; auto simp: is_name_def)+

lemma object_keys_filter:
  "object_keys (filter (\<lambda>(k, ve). R k) ob) = filter (\<lambda>n. R (Name n)) (object_keys ob)"
  by (induction ob rule: object_keys.induct) auto

lemma map_fst_filter: "map fst (filter (\<lambda>(k, ve). R k) ob) = filter R (map fst ob)"
  by (induction ob) auto

lemma object_keys_track_literal: "object_keys (track_literal d info requester) = track_fields"
  by (simp add: track_literal_def track_fields_def)

lemma map_fst_track_literal: "map fst (track_literal d info requester) = map Name track_fields"
  by (simp add: track_literal_def track_fields_def)

lemma project_track_literal:
  "project (map VStr names) (track_literal d info requester) =
     filter (\<lambda>(k, ve). \<forall>key\<in>set track_fields. k = Name key \<longrightarrow> key \<in> set names) (track_literal d info requester)"
proof -
  have "(\<lambda>key t. if VStr key \<in> set (map VStr names) then t else delete_prop t (Name key))
      = (\<lambda>key t. if key \<in> set names then t else delete_prop t (Name key))"
    by (auto simp: fun_eq_iff)
  then show ?thesis
    by (simp add: project_def object_keys_track_literal fold_project)
qed

lemma build_projected:
  assumes "deref h a = Some (Array (map VStr names))" and "data_info d = Some info"
  shows "\<exists>t. build (tu\<lparr>trackPartial := VRef a\<rparr>) h (Some (d::TrackData)) requester = Inr t
     \<and> object_keys t = filter (\<lambda>k. k \<in> set names) track_fields
     \<and> map fst t = map Name (filter (\<lambda>k. k \<in> set names) track_fields) @ [TRACK_SYMBOL]
     \<and> get_prop t TRACK_SYMBOL = VBool True"
proof -
  let ?lit = "track_literal d info requester"
  let ?R = "\<lambda>k. \<forall>key\<in>set track_fields. k = Name key \<longrightarrow> key \<in> set names"
  let ?p = "filter (\<lambda>(k, ve). ?R k) ?lit"
  let ?t = "defineProperty ?p TRACK_SYMBOL (VBool True)"
  have b: "build (tu\<lparr>trackPartial := VRef a\<rparr>) h (Some d) requester = Inr ?t"
    using assms by (simp add: build_def truthy_def as_array_def project_track_literal)
  have "TRACK_SYMBOL \<notin> set (map fst ?lit)"
    unfolding map_fst_track_literal by auto
  then have nt: "TRACK_SYMBOL \<notin> fst ` set ?p"
    by auto
  have t: "?t = ?p @ [(TRACK_SYMBOL, VBool True, False)]"
    using defineProperty_new[OF nt] .
  have f: "filter (\<lambda>n. ?R (Name n)) track_fields = filter (\<lambda>k. k \<in> set names) track_fields"
    by (rule filter_cong) auto
  have f': "filter (\<lambda>n. n \<in> set track_fields \<longrightarrow> n \<in> set names) track_fields
      = filter (\<lambda>k. k \<in> set names) track_fields"
    by (rule filter_cong) auto
  have k: "object_keys ?t = filter (\<lambda>k. k \<in> set names) track_fields"
    unfolding t
    by (simp add: object_keys_append_symbol is_name_def object_keys_filter object_keys_track_literal f f')
  have "filter ?R (map Name track_fields) = map Name (filter (\<lambda>n. ?R (Name n)) track_fields)"
    by (simp add: filter_map comp_def)
  then have m: "map fst ?t = map Name (filter (\<lambda>k. k \<in> set names) track_fields) @ [TRACK_SYMBOL]"
    unfolding t by (simp add: map_fst_filter map_fst_track_literal f f')
  have g: "get_prop ?t TRACK_SYMBOL = VBool True"
    by (simp add: get_prop_defineProperty)
  show ?thesis using b k m g by blast
qed

lemma setTrackPartial_rejects:
  "as_array h partial = None \<or> (\<exists>xs. as_array h partial = Some xs \<and> \<not> list_all is_string xs)
     \<Longrightarrow> setTrackPartial tu h partial = Inl PlainError"
  by (auto simp: setTrackPartial_def as_array_def split: jsval.splits option.splits cell.splits)

lemma setTrackPartial_accepts:
  assumes "deref h a = Some (Array (map VStr names))"
  shows "setTrackPartial tu h (VRef a) =
     Inr (tu\<lparr>trackPartial := VRef a\<rparr>,
          h[a := Array (map VStr (if ''track'' \<in> set names then names else ''track'' # names))])"
proof -
  have "list_all is_string (map VStr names)"
    by (simp add: list_all_iff is_string_def)
  moreover have "VStr ''track'' \<in> set (map VStr names) \<longleftrightarrow> ''track'' \<in> set names"
    by auto
  ultimately show ?thesis
    using assms by (simp add: setTrackPartial_def Let_def del: set_map)
qed

lemma objects_kept:
  assumes "deref h a = Some (Array xs)" and "deref h b = Some (Object ob)"
  shows "deref (h[a := Array ys]) b = Some (Object ob)"
proof -
  from assms have "a \<noteq> b" by auto
  with assms(2) show ?thesis by (simp add: deref_def split: if_splits)
qed

text \<open>
  C6. The setter rejects an argument that is not an array, and an array with an element
  that is not a string. On an array of strings it puts \<open>track\<close> in front when it is
  absent and keeps the reference of the array; no object of the store changes, so
  tracks built before are as they were. Afterwards, in every store that still holds
  this array, \<open>build\<close> returns a track whose enumerable string keys are the fields of the
  track that are in the list, in the order of the fields, followed by the hidden tag
  alone: every other field was removed and the tag attached last. When every listed name
  is a field of the track, the keys are exactly the listed names.
\<close>

theorem setTrackPartial_whitelist:
  "(as_array h partial = None \<or> (\<exists>xs. as_array h partial = Some xs \<and> \<not> list_all is_string xs)
      \<longrightarrow> setTrackPartial tu h partial = Inl PlainError)
   \<and> (deref h a = Some (Array (map VStr names)) \<and> wl = (if ''track'' \<in> set names then names else ''track'' # names)
      \<longrightarrow> setTrackPartial tu h (VRef a) = Inr (tu\<lparr>trackPartial := VRef a\<rparr>, h[a := Array (map VStr wl)])
        \<and> (\<forall>b ob. deref h b = Some (Object ob) \<longrightarrow> deref (h[a := Array (map VStr wl)]) b = Some (Object ob))
        \<and> (\<forall>h' (d::TrackData) info requester.
             deref h' a = Some (Array (map VStr wl)) \<and> data_info d = Some info \<longrightarrow>
             (\<exists>t. build (tu\<lparr>trackPartial := VRef a\<rparr>) h' (Some d) requester = Inr t
                \<and> object_keys t = filter (\<lambda>k. k \<in> set wl) track_fields
                \<and> map fst t = map Name (filter (\<lambda>k. k \<in> set wl) track_fields) @ [TRACK_SYMBOL]
                \<and> get_prop t TRACK_SYMBOL = VBool True
                \<and> (set wl \<subseteq> set track_fields \<longrightarrow> set (object_keys t) = set wl))))"
proof (intro conjI impI)
  assume "as_array h partial = None \<or> (\<exists>xs. as_array h partial = Some xs \<and> \<not> list_all is_string xs)"
  then show "setTrackPartial tu h partial = Inl PlainError" by (rule setTrackPartial_rejects)
next
  assume a: "deref h a = Some (Array (map VStr names)) \<and> wl = (if ''track'' \<in> set names then names else ''track'' # names)"
  then show "setTrackPartial tu h (VRef a) = Inr (tu\<lparr>trackPartial := VRef a\<rparr>, h[a := Array (map VStr wl)])"
    using setTrackPartial_accepts[of h a names tu] by simp
  from a show "\<forall>b ob. deref h b = Some (Object ob) \<longrightarrow> deref (h[a := Array (map VStr wl)]) b = Some (Object ob)"
    using objects_kept by blast
  show "\<forall>h' d info requester.
             deref h' a = Some (Array (map VStr wl)) \<and> data_info d = Some info \<longrightarrow>
             (\<exists>t. build (tu\<lparr>trackPartial := VRef a\<rparr>) h' (Some d) requester = Inr t
                \<and> object_keys t = filter (\<lambda>k. k \<in> set wl) track_fields
                \<and> map fst t = map Name (filter (\<lambda>k. k \<in> set wl) track_fields) @ [TRACK_SYMBOL]
                \<and> get_prop t TRACK_SYMBOL = VBool True
                \<and> (set wl \<subseteq> set track_fields \<longrightarrow> set (object_keys t) = set wl))"
  proof (intro allI impI)
    fix h' and d :: TrackData and info requester
    assume p: "deref h' a = Some (Array (map VStr wl)) \<and> data_info d = Some info"
    then obtain t where t: "build (tu\<lparr>trackPartial := VRef a\<rparr>) h' (Some d) requester = Inr t"
      "object_keys t = filter (\<lambda>k. k \<in> set wl) track_fields"
      "map fst t = map Name (filter (\<lambda>k. k \<in> set wl) track_fields) @ [TRACK_SYMBOL]"
      "get_prop t TRACK_SYMBOL = VBool True"
      using build_projected[of h' a wl d info tu requester] by blast
    have "set wl \<subseteq> set track_fields \<longrightarrow> set (object_keys t) = set wl"
      unfolding t(2) by auto
    with t show "\<exists>t. build (tu\<lparr>trackPartial := VRef a\<rparr>) h' (Some d) requester = Inr t
                \<and> object_keys t = filter (\<lambda>k. k \<in> set wl) track_fields
                \<and> map fst t = map Name (filter (\<lambda>k. k \<in> set wl) track_fields) @ [TRACK_SYMBOL]
                \<and> get_prop t TRACK_SYMBOL = VBool True
                \<and> (set wl \<subseteq> set track_fields \<longrightarrow> set (object_keys t) = set wl)"
      by blast
  qed
qed

theorem setTrackPartial_whitelist_witness:
  "as_array ex_heap_partial (VStr ''title'') = None
   \<and> setTrackPartial ex_tu_none ex_heap_partial (VStr ''title'') = Inl PlainError
   \<and> deref ex_heap_partial 0 = Some (Array (map VStr [''title'']))
   \<and> setTrackPartial ex_tu_none ex_heap_partial (VRef 0)
       = Inr (ex_tu_none\<lparr>trackPartial := VRef 0\<rparr>, ex_heap_partial[0 := Array (map VStr [''track'', ''title''])])
   \<and> deref ex_heap_partial 1 = Some (Object ex_track)
   \<and> deref (ex_heap_partial[0 := Array (map VStr [''track'', ''title''])]) 1 = Some (Object ex_track)
   \<and> deref (ex_heap_partial[0 := Array (map VStr [''track'', ''title''])]) 0 = Some (Array (map VStr [''track'', ''title'']))
   \<and> data_info ex_data = Some \<lparr>info_title = ''Song'',
     info_identifier = ''abc'', info_author = ''X'', info_length = 200000, info_isSeekable = True,
     info_isStream = False, info_uri = ''https://www.youtube.com/watch?v=abc''\<rparr>
   \<and> set [''track'', ''title''] \<subseteq> set track_fields
   \<and> (\<exists>t. build (ex_tu_none\<lparr>trackPartial := VRef 0\<rparr>) (ex_heap_partial[0 := Array (map VStr [''track'', ''title''])])
            (Some ex_data) VUndefined = Inr t
          \<and> object_keys t = [''track'', ''title'']
          \<and> map fst t = [Name ''track'', Name ''title'', TRACK_SYMBOL]
          \<and> set (object_keys t) = set [''track'', ''title''])"
proof -
  have 1: "as_array ex_heap_partial (VStr ''title'') = None" by code_simp
  have 2: "deref ex_heap_partial 0 = Some (Array (map VStr [''title'']))" by code_simp
  have 3: "deref ex_heap_partial 1 = Some (Object ex_track)" by code_simp
  have 4: "deref (ex_heap_partial[0 := Array (map VStr [''track'', ''title''])]) 0 = Some (Array (map VStr [''track'', ''title'']))"
    by code_simp
  have 5: "data_info ex_data = Some \<lparr>info_title = ''Song'',
     info_identifier = ''abc'', info_author = ''X'', info_length = 200000, info_isSeekable = True,
     info_isStream = False, info_uri = ''https://www.youtube.com/watch?v=abc''\<rparr>" by code_simp
  have 6: "set [''track'', ''title''] \<subseteq> set track_fields" by code_simp
  have 7: "filter (\<lambda>k. k \<in> set [''track'', ''title'']) track_fields = [''track'', ''title'']" by code_simp
  have 8: "[''track'', ''title''] = (if ''track'' \<in> set [''title''] then [''title''] else ''track'' # [''title''])"
    by simp
  note a = setTrackPartial_whitelist[of ex_heap_partial "VStr ''title''" ex_tu_none 0 "[''title'']" "[''track'', ''title'']"]
  from a 1 have r1: "setTrackPartial ex_tu_none ex_heap_partial (VStr ''title'') = Inl PlainError" by blast
  from a 2 8 have r2: "setTrackPartial ex_tu_none ex_heap_partial (VRef 0)
       = Inr (ex_tu_none\<lparr>trackPartial := VRef 0\<rparr>, ex_heap_partial[0 := Array (map VStr [''track'', ''title''])])"
    by blast
  from a 2 8 3 have r3: "deref (ex_heap_partial[0 := Array (map VStr [''track'', ''title''])]) 1 = Some (Object ex_track)"
    by blast
  from a 2 8 have "\<forall>h' d info requester.
             deref h' 0 = Some (Array (map VStr [''track'', ''title''])) \<and> data_info d = Some info \<longrightarrow>
             (\<exists>t. build (ex_tu_none\<lparr>trackPartial := VRef 0\<rparr>) h' (Some d) requester = Inr t
                \<and> object_keys t = filter (\<lambda>k. k \<in> set [''track'', ''title'']) track_fields
                \<and> map fst t = map Name (filter (\<lambda>k. k \<in> set [''track'', ''title'']) track_fields) @ [TRACK_SYMBOL]
                \<and> get_prop t TRACK_SYMBOL = VBool True
                \<and> (set [''track'', ''title''] \<subseteq> set track_fields \<longrightarrow> set (object_keys t) = set [''track'', ''title'']))"
    by blast
  with 4 5 6 have r4: "\<exists>t. build (ex_tu_none\<lparr>trackPartial := VRef 0\<rparr>) (ex_heap_partial[0 := Array (map VStr [''track'', ''title''])])
            (Some ex_data) VUndefined = Inr t
          \<and> object_keys t = [''track'', ''title'']
          \<and> map fst t = [Name ''track'', Name ''title'', TRACK_SYMBOL]
          \<and> set (object_keys t) = set [''track'', ''title'']"
    unfolding 7 by fastforce
  show ?thesis using 1 2 3 4 5 6 r1 r2 r3 r4 by blast
qed

section \<open>Properties of the structure registry\<close>

lemma lookup_update_same: "lookup_structure (AList.update name v st) name = v"
  by (simp add: lookup_structure_def update_conv')

lemma lookup_init_roles:
  "name \<in> {''Player'', ''Queue'', ''Node''} \<Longrightarrow> struct_truthy (lookup_structure (structures_init p q n) name)"
  by (auto simp: lookup_structure_def structures_init_def struct_truthy_def)

lemma lookup_init_unknown:
  "name \<notin> {''Player'', ''Queue'', ''Node''} \<Longrightarrow> name \<notin> set object_prototype_keys \<Longrightarrow>
     lookup_structure (structures_init p q n) name = SUndefined"
  by (simp add: lookup_structure_def structures_init_def)

text \<open>
  What the registry does for a name, by the value its lookup yields. The guard of \<open>extend\<close> and of \<open>get\<close> is the truthiness of
  \<open>structures[name]\<close>. For a name whose lookup is truthy, as it is for the three roles
  of the initial registry, \<open>get\<close> returns the bound value, \<open>extend\<close> returns the
  transform of the bound value and binds it, a following lookup yields it, a following
  \<open>get\<close> returns it when it is truthy, and a second \<open>extend\<close> transforms that value
  in turn. For a name whose lookup is
  \<open>undefined\<close> both \<open>extend\<close> and \<open>get\<close> throw a TypeError: in the initial registry
  these are the names that are neither a role nor a member of \<open>Object.prototype\<close>.
\<close>

lemma extend_then_get_by_lookup:
  "(struct_truthy (lookup_structure st name) \<and> v = fn (lookup_structure st name) \<longrightarrow>
      get st name = Inr (lookup_structure st name)
      \<and> extend st name fn = Inr (v, AList.update name v st)
      \<and> lookup_structure (AList.update name v st) name = v
      \<and> (struct_truthy v \<longrightarrow>
            get (AList.update name v st) name = Inr v
            \<and> extend (AList.update name v st) name fn' = Inr (fn' v, AList.update name (fn' v) (AList.update name v st))))
   \<and> (name \<in> {''Player'', ''Queue'', ''Node''} \<longrightarrow> struct_truthy (lookup_structure (structures_init p q n) name))
   \<and> (\<not> struct_truthy (lookup_structure st name) \<longrightarrow>
        extend st name fn = Inl TypeError \<and> get st name = Inl TypeError)
   \<and> (name \<notin> {''Player'', ''Queue'', ''Node''} \<and> name \<notin> set object_prototype_keys \<longrightarrow>
        lookup_structure (structures_init p q n) name = SUndefined)"
  using lookup_init_roles[of name p q n] lookup_init_unknown[of name p q n]
  by (simp add: extend_def get_def Let_def lookup_update_same)

lemma extend_then_get_by_lookup_example:
  "''Queue'' \<in> {''Player'', ''Queue'', ''Node''}
   \<and> struct_truthy (lookup_structure ex_structures ''Queue'')
   \<and> SClass 11 = ex_wrap (lookup_structure ex_structures ''Queue'')
   \<and> extend ex_structures ''Queue'' ex_wrap = Inr (SClass 11, AList.update ''Queue'' (SClass 11) ex_structures)
   \<and> struct_truthy (SClass 11 :: nat sval)
   \<and> get (AList.update ''Queue'' (SClass 11) ex_structures) ''Queue'' = Inr (SClass 11)
   \<and> fst (projr (extend (AList.update ''Queue'' (SClass 11) ex_structures) ''Queue'' ex_wrap)) = SClass 21
   \<and> ''NotARole'' \<notin> {''Player'', ''Queue'', ''Node''} \<and> ''NotARole'' \<notin> set object_prototype_keys
   \<and> \<not> struct_truthy (lookup_structure ex_structures ''NotARole'')
   \<and> extend ex_structures ''NotARole'' ex_wrap = Inl TypeError
   \<and> get ex_structures ''NotARole'' = Inl TypeError"
proof -
  have 1: "struct_truthy (lookup_structure ex_structures ''Queue'')" by code_simp
  have 2: "SClass 11 = ex_wrap (lookup_structure ex_structures ''Queue'')" by code_simp
  have 3: "struct_truthy (SClass 11 :: nat sval)" by code_simp
  have 4: "''NotARole'' \<notin> {''Player'', ''Queue'', ''Node''} \<and> ''NotARole'' \<notin> set object_prototype_keys"
    by code_simp
  have 5: "\<not> struct_truthy (lookup_structure ex_structures ''NotARole'')" by code_simp
  have 6: "ex_wrap (SClass 11) = SClass 21" by code_simp
  note a = extend_then_get_by_lookup[where st = ex_structures and name = "''Queue''" and v = "SClass 11"
      and fn = ex_wrap and fn' = ex_wrap and p = "0::nat" and q = 1 and n = 2]
  note b = extend_then_get_by_lookup[where st = ex_structures and name = "''NotARole''" and v = "SClass 11"
      and fn = ex_wrap and fn' = ex_wrap and p = "0::nat" and q = 1 and n = 2]
  show ?thesis using 1 2 3 4 5 6 a b by simp
qed

text \<open>
  C7. The guard \<open>!structures[name]\<close> of \<open>extend\<close> and \<open>get\<close> throws on a name outside
  the role set such as \<open>NotARole\<close>, and misses the names outside the role set that the
  registry inherits. The registry is a plain object with \<open>Object.prototype\<close>: the names
  \<open>toString\<close> and \<open>constructor\<close> are outside the role set and their lookup is a
  function, which is truthy. So \<open>extend\<close> on \<open>toString\<close> does not throw: it applies the
  transform to the inherited function, binds the result in the registry under that
  name and returns it; and \<open>get\<close> on \<open>constructor\<close> returns the inherited function.
\<close>

theorem extend_accepts_inherited_name:
  "''toString'' \<notin> {''Player'', ''Queue'', ''Node''}
   \<and> ''constructor'' \<notin> {''Player'', ''Queue'', ''Node''}
   \<and> extend ex_structures ''toString'' ex_wrap
       = Inr (SInherited ''toString'',
              [(''Player'', SClass 0), (''Queue'', SClass 1), (''Node'', SClass 2),
               (''toString'', SInherited ''toString'')])
   \<and> get ex_structures ''toString'' = Inr (SInherited ''toString'')
   \<and> get ex_structures ''constructor'' = Inr (SInherited ''constructor'')
   \<and> extend ex_structures ''NotARole'' ex_wrap = Inl TypeError
   \<and> get ex_structures ''NotARole'' = Inl TypeError"
  by code_simp

section \<open>Properties of the capability checks\<close>

lemma get_member_present: "present v \<Longrightarrow> get_member h v k = Inr (marker h v k)"
  by (cases v) (auto simp: present_def get_member_def marker_def split: option.splits cell.splits)

lemma validate_loop_present:
  "\<forall>x\<in>set xs. present x \<Longrightarrow>
     validate_loop h xs = Inr (\<forall>x\<in>set xs. truthy (marker h x TRACK_SYMBOL) \<or> truthy (marker h x UNRESOLVED_TRACK_SYMBOL))"
proof (induction xs)
  case Nil
  then show ?case by simp
next
  case (Cons x xs)
  from Cons.prems have p: "present x" and ps: "\<forall>x\<in>set xs. present x" by auto
  show ?case
    using Cons.IH[OF ps]
    by (auto simp: either_marker_def get_member_present[OF p])
qed

lemma either_marker_present:
  assumes "present v"
  shows "either_marker h v = Inr (if truthy (marker h v TRACK_SYMBOL) then marker h v TRACK_SYMBOL
                                   else marker h v UNRESOLVED_TRACK_SYMBOL)"
  by (simp add: either_marker_def get_member_present[OF assms])

lemma isTrack_present: "present v \<Longrightarrow> isTrack h v = Inr (marker h v TRACK_SYMBOL = VBool True)"
  by (simp add: isTrack_def get_member_present) (simp add: present_def)

lemma isUnresolvedTrack_present:
  "present v \<Longrightarrow> isUnresolvedTrack h v = Inr (marker h v UNRESOLVED_TRACK_SYMBOL = VBool True)"
  by (simp add: isUnresolvedTrack_def get_member_present) (simp add: present_def)

text \<open>
  What \<open>validate\<close> computes on values that are present, that is on every value but
  \<open>undefined\<close> and \<open>null\<close>. It throws a RangeError on \<open>undefined\<close>. On a value
  that is not a non-empty array (and not \<open>null\<close>) it returns whether
  \<open>(v[TRACK_SYMBOL] || v[UNRESOLVED_TRACK_SYMBOL]) === true\<close>: the resolved marker is
  \<open>true\<close>, or it is falsy and the unresolved marker is \<open>true\<close>; so on an empty array it
  returns false. On a non-empty array without \<open>undefined\<close> or \<open>null\<close> elements it
  returns whether every element has a truthy marker, with no comparison to \<open>true\<close>.
  Where every marker that is present holds \<open>true\<close>, both tests are the test that
  \<open>isTrack\<close> or \<open>isUnresolvedTrack\<close> holds. A value without markers fails \<open>isTrack\<close>
  and \<open>isUnresolvedTrack\<close>.
\<close>

lemma validate_on_present_values:
  "validate h VUndefined = Inl RangeError
   \<and> (present v \<and> (as_array h v = None \<or> as_array h v = Some []) \<longrightarrow>
        validate h v = Inr (marker h v TRACK_SYMBOL = VBool True
                            \<or> \<not> truthy (marker h v TRACK_SYMBOL) \<and> marker h v UNRESOLVED_TRACK_SYMBOL = VBool True))
   \<and> (as_array h v = Some [] \<longrightarrow> validate h v = Inr False)
   \<and> (as_array h v = Some xs \<and> xs \<noteq> [] \<and> (\<forall>x\<in>set xs. present x) \<longrightarrow>
        validate h v = Inr (\<forall>x\<in>set xs. truthy (marker h x TRACK_SYMBOL) \<or> truthy (marker h x UNRESOLVED_TRACK_SYMBOL)))
   \<and> (present v \<and> well_tagged h v \<and> (as_array h v = None \<or> as_array h v = Some []) \<longrightarrow>
        validate h v = Inr (isTrack h v = Inr True \<or> isUnresolvedTrack h v = Inr True))
   \<and> (as_array h v = Some xs \<and> xs \<noteq> [] \<and> (\<forall>x\<in>set xs. present x \<and> well_tagged h x) \<longrightarrow>
        validate h v = Inr (\<forall>x\<in>set xs. isTrack h x = Inr True \<or> isUnresolvedTrack h x = Inr True))
   \<and> (present v \<and> marker h v TRACK_SYMBOL = VUndefined \<and> marker h v UNRESOLVED_TRACK_SYMBOL = VUndefined \<longrightarrow>
        isTrack h v = Inr False \<and> isUnresolvedTrack h v = Inr False)"
proof -
  have a: "validate h VUndefined = Inl RangeError" by (simp add: validate_def)
  have single: "validate h v = Inr (marker h v TRACK_SYMBOL = VBool True
                            \<or> \<not> truthy (marker h v TRACK_SYMBOL) \<and> marker h v UNRESOLVED_TRACK_SYMBOL = VBool True)"
    if "present v" "as_array h v = None \<or> as_array h v = Some []"
    using that either_marker_present[OF that(1), of h]
    by (auto simp: validate_def present_def truthy_def)
  have arrv: "present v" if "as_array h v = Some ys" for ys
    using that by (auto simp: as_array_def present_def split: jsval.splits)
  have arrm: "marker h v k = VUndefined" if "as_array h v = Some ys" for ys k
    using that by (auto simp: as_array_def marker_def get_member_def split: jsval.splits option.splits cell.splits)
  have c: "validate h v = Inr False" if "as_array h v = Some []"
    using single[OF arrv[OF that]] that arrm[OF that] by (simp add: truthy_def)
  have d: "validate h v = Inr (\<forall>x\<in>set xs. truthy (marker h x TRACK_SYMBOL) \<or> truthy (marker h x UNRESOLVED_TRACK_SYMBOL))"
    if "as_array h v = Some xs" "xs \<noteq> []" "\<forall>x\<in>set xs. present x"
  proof -
    from that(2) obtain y ys where xs: "xs = y # ys" by (cases xs) auto
    have "v \<noteq> VUndefined" using arrv[OF that(1)] by (simp add: present_def)
    then have "validate h v = validate_loop h xs"
      using that(1) by (simp add: validate_def xs)
    then show ?thesis using validate_loop_present[OF that(3)] by simp
  qed
  have wt: "truthy (marker h x k) \<longleftrightarrow> marker h x k = VBool True"
    if "marker h x k \<in> {VUndefined, VBool True}" for x k
    using that by (auto simp: truthy_def)
  have e: "validate h v = Inr (isTrack h v = Inr True \<or> isUnresolvedTrack h v = Inr True)"
    if "present v" "well_tagged h v" "as_array h v = None \<or> as_array h v = Some []"
    using single[OF that(1) that(3)] that(2) wt[of v TRACK_SYMBOL]
    by (auto simp: isTrack_present[OF that(1)] isUnresolvedTrack_present[OF that(1)] well_tagged_def)
  have f: "validate h v = Inr (\<forall>x\<in>set xs. isTrack h x = Inr True \<or> isUnresolvedTrack h x = Inr True)"
    if "as_array h v = Some xs" "xs \<noteq> []" "\<forall>x\<in>set xs. present x \<and> well_tagged h x"
  proof -
    have "(truthy (marker h x TRACK_SYMBOL) \<or> truthy (marker h x UNRESOLVED_TRACK_SYMBOL))
        = (isTrack h x = Inr True \<or> isUnresolvedTrack h x = Inr True)" if "x \<in> set xs" for x
      using that \<open>\<forall>x\<in>set xs. present x \<and> well_tagged h x\<close>
        wt[of x TRACK_SYMBOL] wt[of x UNRESOLVED_TRACK_SYMBOL]
      by (simp add: isTrack_present isUnresolvedTrack_present well_tagged_def)
    then show ?thesis using d[OF that(1,2)] that(3) by simp
  qed
  have g: "isTrack h v = Inr False \<and> isUnresolvedTrack h v = Inr False"
    if "present v" "marker h v TRACK_SYMBOL = VUndefined" "marker h v UNRESOLVED_TRACK_SYMBOL = VUndefined"
    using that by (simp add: isTrack_present isUnresolvedTrack_present)
  show ?thesis using a single c d e f g by blast
qed

lemma validate_on_present_values_example:
  "present (VRef 0) \<and> as_array ex_heap_tracks (VRef 0) = None \<and> well_tagged ex_heap_tracks (VRef 0)
   \<and> validate ex_heap_tracks (VRef 0) = Inr True
   \<and> as_array ex_heap_tracks (VRef 3) = Some []
   \<and> validate ex_heap_tracks (VRef 3) = Inr False
   \<and> as_array ex_heap_tracks (VRef 2) = Some [VRef 0, VRef 1] \<and> [VRef 0, VRef 1] \<noteq> []
   \<and> present (VRef 0) \<and> well_tagged ex_heap_tracks (VRef 0)
   \<and> present (VRef 1) \<and> well_tagged ex_heap_tracks (VRef 1)
   \<and> validate ex_heap_tracks (VRef 2) = Inr True
   \<and> present (VRef 4) \<and> marker ex_heap_tracks (VRef 4) TRACK_SYMBOL = VUndefined
   \<and> marker ex_heap_tracks (VRef 4) UNRESOLVED_TRACK_SYMBOL = VUndefined
   \<and> isTrack ex_heap_tracks (VRef 4) = Inr False \<and> isUnresolvedTrack ex_heap_tracks (VRef 4) = Inr False"
proof -
  have 1: "present (VRef 0) \<and> as_array ex_heap_tracks (VRef 0) = None \<and> well_tagged ex_heap_tracks (VRef 0)"
    by code_simp
  have 2: "as_array ex_heap_tracks (VRef 3) = Some []" by code_simp
  have 3: "as_array ex_heap_tracks (VRef 2) = Some [VRef 0, VRef 1] \<and> [VRef 0, VRef 1] \<noteq> []
     \<and> (\<forall>x\<in>set [VRef 0, VRef 1]. present x \<and> well_tagged ex_heap_tracks x)"
    by code_simp
  have 4: "present (VRef 4) \<and> marker ex_heap_tracks (VRef 4) TRACK_SYMBOL = VUndefined
     \<and> marker ex_heap_tracks (VRef 4) UNRESOLVED_TRACK_SYMBOL = VUndefined"
    by code_simp
  have 6: "marker ex_heap_tracks (VRef 0) TRACK_SYMBOL = VBool True" by code_simp
  have r1: "validate ex_heap_tracks (VRef 0) = Inr True"
    using validate_on_present_values[of ex_heap_tracks "VRef 0" "[]"] 1 6 by simp
  have r2: "validate ex_heap_tracks (VRef 3) = Inr False"
    using validate_on_present_values[of ex_heap_tracks "VRef 3" "[]"] 2 by simp
  have 7: "marker ex_heap_tracks (VRef 1) UNRESOLVED_TRACK_SYMBOL = VBool True" by code_simp
  have r3: "validate ex_heap_tracks (VRef 2) = Inr True"
    using validate_on_present_values[of ex_heap_tracks "VRef 2" "[VRef 0, VRef 1]"] 3 6 7
    by (simp add: truthy_def)
  have r4: "isTrack ex_heap_tracks (VRef 4) = Inr False \<and> isUnresolvedTrack ex_heap_tracks (VRef 4) = Inr False"
    using validate_on_present_values[of ex_heap_tracks "VRef 4" "[]"] 4 by simp
  show ?thesis using 1 2 3 4 r1 r2 r3 r4 by simp
qed

text \<open>
  C8. \<open>validate\<close> is the check that a marker is present and equal to \<open>true\<close>, on a
  value or on every element of an array, except in two places. The guard for an absent
  argument tests \<open>undefined\<close> only, so on \<open>null\<close>, which has no marker, \<open>validate\<close>
  does not return false: reading the marker throws a TypeError. The same happens in the loop over an
  array on an element that is \<open>null\<close> or \<open>undefined\<close>, also after an element that is a
  track. And the loop tests \<open>!(a || b)\<close> where the return for a single value tests
  \<open>(a || b) === true\<close>, as \<open>isTrack\<close> and \<open>isUnresolvedTrack\<close> do: an array whose one
  element carries the resolved marker with the value 1 is accepted, though the element
  has no marker equal to \<open>true\<close> and fails \<open>validate\<close>, \<open>isTrack\<close> and
  \<open>isUnresolvedTrack\<close> on its own.
\<close>

theorem validate_null_and_truthy_marker:
  "validate ex_heap_null VNull = Inl TypeError
   \<and> as_array ex_heap_null (VRef 0) = Some [VNull]
   \<and> validate ex_heap_null (VRef 0) = Inl TypeError
   \<and> as_array ex_heap_null (VRef 1) = Some [VUndefined]
   \<and> validate ex_heap_null (VRef 1) = Inl TypeError
   \<and> as_array ex_heap_null (VRef 2) = Some [VRef 3, VNull]
   \<and> validate ex_heap_null (VRef 3) = Inr True
   \<and> validate ex_heap_null (VRef 2) = Inl TypeError
   \<and> as_array ex_heap_odd_tag (VRef 0) = Some [VRef 1]
   \<and> validate ex_heap_odd_tag (VRef 0) = Inr True
   \<and> validate ex_heap_odd_tag (VRef 1) = Inr False
   \<and> isTrack ex_heap_odd_tag (VRef 1) = Inr False
   \<and> isUnresolvedTrack ex_heap_odd_tag (VRef 1) = Inr False"
  by code_simp

section \<open>Properties of digits and decimal numerals\<close>

lemma below_ten: "n < 10 \<Longrightarrow> n \<in> {0, 1, 2, 3, 4, 5, 6, 7, 8, 9 :: nat}"
  by simp arith

lemma is_digit_digit_char: "n < 10 \<Longrightarrow> is_digit (digit_char n)"
  using below_ten[of n] by (auto simp: is_digit_def digit_char_def)

lemma digit_val_digit_char: "n < 10 \<Longrightarrow> digit_val (digit_char n) = int n"
  using below_ten[of n] by (auto simp: digit_val_def digit_char_def)

lemma digit_char_zero: "n < 10 \<Longrightarrow> digit_char n = CHR ''0'' \<longleftrightarrow> n = 0"
  using below_ten[of n] by (auto simp: digit_char_def)

lemma is_digit_not_space: "is_digit c \<Longrightarrow> \<not> is_space c"
  by (auto simp: is_digit_def is_space_def)

lemma is_digit_to_lower: "is_digit c \<Longrightarrow> to_lower c = c"
  by (auto simp: is_digit_def to_lower_def)

lemma is_digit_not_special: "is_digit c \<Longrightarrow> c \<noteq> CHR '','' \<and> c \<noteq> CHR '':'' \<and> c \<noteq> CHR ''.'' \<and> c \<noteq> CHR '' '' \<and> c \<noteq> CHR ''N''"
  by (auto simp: is_digit_def)

lemma show_nat_digits: "list_all is_digit (show_nat n)"
proof (induction n rule: show_nat.induct)
  case (1 n)
  show ?case
  proof (cases "n < 10")
    case True
    then show ?thesis by (subst show_nat.simps) (simp add: is_digit_digit_char)
  next
    case False
    then show ?thesis using 1 by (subst show_nat.simps) (simp add: is_digit_digit_char)
  qed
qed

lemma show_nat_nonempty: "show_nat n \<noteq> []"
  by (subst show_nat.simps) simp

lemma digits_value_snoc: "digits_value (ds @ [c]) = 10 * digits_value ds + digit_val c"
  by (simp add: digits_value_def)

lemma digits_value_show_nat: "digits_value (show_nat n) = int n"
proof (induction n rule: show_nat.induct)
  case (1 n)
  show ?case
  proof (cases "n < 10")
    case True
    then show ?thesis
      by (subst show_nat.simps) (simp add: digits_value_def digit_val_digit_char)
  next
    case False
    then have "digits_value (show_nat n) = 10 * int (n div 10) + int (n mod 10)"
      using 1 by (subst show_nat.simps) (simp add: digits_value_snoc digit_val_digit_char)
    then show ?thesis by (simp add: zdiv_int zmod_int)
  qed
qed

lemma show_nat_hd: "0 < n \<Longrightarrow> hd (show_nat n) \<noteq> CHR ''0''"
proof (induction n rule: show_nat.induct)
  case (1 n)
  show ?case
  proof (cases "n < 10")
    case True
    with 1(2) show ?thesis by (subst show_nat.simps) (simp add: digit_char_zero)
  next
    case False
    then have "0 < n div 10" by simp
    with 1(1) False have "hd (show_nat (n div 10)) \<noteq> CHR ''0''" by simp
    with False show ?thesis
      by (subst show_nat.simps) (simp add: show_nat_nonempty)
  qed
qed

lemma show_nat_length: "10 \<le> n \<Longrightarrow> 2 \<le> length (show_nat n)"
  by (subst show_nat.simps) (use show_nat_nonempty[of "n div 10"] in \<open>cases "show_nat (n div 10)"; simp\<close>)

lemma show_int_nat: "0 \<le> v \<Longrightarrow> show_int v = show_nat (nat v)"
  by (simp add: show_int_def)

section \<open>Properties of the duration codec\<close>

text \<open>
  C5: one week is counted in the field \<open>weeks\<close> of the decomposition, as the number 7,
  and the rendering loop gives that field a column and a unit word of its own. So one
  week in minimal form is \<open>07\<close> followed by the four columns of days, hours, minutes and
  seconds, eight days are \<open>07:01:00:00:00\<close>, and one week in words is \<open>7 weeks\<close>.
\<close>

theorem formatTime_one_week:
  "formatTime (Some 604800000) True = Inr ''07:00:00:00:00''
   \<and> formatTime (Some 604800000) False = Inr ''7 weeks''
   \<and> formatTime (Some 691200000) True = Inr ''07:01:00:00:00''
   \<and> formatTime (Some 691200000) False = Inr ''7 weeks and  1 day''"
  by code_simp

subsection \<open>formatTime below one second\<close>

lemma formatTime_loop_nonpositive: "ms \<le> 0 \<Longrightarrow> formatTime_loop ms t = t"
  by (subst formatTime_loop.simps) simp

lemma formatTime_loop_below_minute:
  "0 < ms \<Longrightarrow> ms < 60000 \<Longrightarrow> formatTime_loop ms t = t\<lparr>seconds := (ms + 500) div 1000\<rparr>"
  by (subst formatTime_loop.simps) (simp add: formatTime_loop_nonpositive)

lemma formatTime_loop_nonneg: "nonneg_times t \<Longrightarrow> nonneg_times (formatTime_loop ms t)"
proof (induction ms t rule: formatTime_loop.induct)
  case (1 ms t)
  show ?case
  proof (cases "ms > 0")
    case False
    then show ?thesis using 1(8) by (simp add: formatTime_loop_nonpositive)
  next
    case True
    note pos = True
    have step: "nonneg_times (t\<lparr>years := years t + 1\<rparr>)" "nonneg_times (t\<lparr>months := months t + 1\<rparr>)"
      "nonneg_times (t\<lparr>weeks := weeks t + 7\<rparr>)" "nonneg_times (t\<lparr>days := days t + 1\<rparr>)"
      "nonneg_times (t\<lparr>hours := hours t + 1\<rparr>)" "nonneg_times (t\<lparr>minutes := minutes t + 1\<rparr>)"
      "nonneg_times (t\<lparr>seconds := (ms + 500) div 1000\<rparr>)"
      using 1(8) pos by (simp_all add: nonneg_times_def)
    show ?thesis
      by (subst formatTime_loop.simps) (use pos step 1(1-7) in \<open>simp del: formatTime_loop.simps\<close>)
  qed
qed

lemma nonneg_times0: "nonneg_times times0"
  by (simp add: nonneg_times_def times0_def)

lemma entries_nonneg: "nonneg_times t \<Longrightarrow> \<forall>(k, v)\<in>set (entries t). 0 \<le> v"
  by (simp add: nonneg_times_def entries_def)

lemma render_zero: "\<forall>(k, v)\<in>set es. v = 0 \<Longrightarrow> render minimal False es = []"
  by (induction es) auto

lemma render_minimal_first:
  "\<forall>(k, v)\<in>set es. 0 \<le> v \<Longrightarrow>
     render True False es = [] \<or> (\<exists>v rest. 0 < v \<and> render True False es = two_digits v # rest)"
proof (induction es)
  case Nil
  then show ?case by simp
next
  case (Cons e es)
  obtain k v where e: "e = (k, v)" by (cases e)
  show ?case
  proof (cases "v = 0")
    case True
    then show ?thesis using Cons by (simp add: e)
  next
    case False
    with Cons.prems have "0 < v" by (simp add: e)
    then show ?thesis using False by (auto simp: e two_digits_def)
  qed
qed

lemma render_words_first:
  "render False first es = [] \<or> (\<exists>v u rest. 0 < v \<and> render False first es = (show_int v @ u) # rest)"
proof (induction es)
  case Nil
  then show ?case by simp
next
  case (Cons e es)
  obtain k v where e: "e = (k, v)" by (cases e)
  show ?case
  proof (cases "v > 0")
    case True
    then show ?thesis by (auto simp: e)
  next
    case False
    then show ?thesis using Cons by (simp add: e)
  qed
qed

lemma two_digits_digits: "0 < v \<Longrightarrow> list_all is_digit (two_digits v)"
  using show_nat_digits[of "nat v"]
  by (simp add: two_digits_def show_int_nat is_digit_def)

lemma two_digits_not_zero: "0 < v \<Longrightarrow> two_digits v \<noteq> ''00''"
proof (cases "v < 10")
  case True
  assume "0 < v"
  with True have "nat v < 10" "nat v \<noteq> 0" by auto
  then show ?thesis
    using True \<open>0 < v\<close> by (simp add: two_digits_def show_int_nat show_nat.simps digit_char_zero)
next
  case False
  assume "0 < v"
  with False show_nat_hd[of "nat v"] show_nat_nonempty[of "nat v"] show ?thesis
    by (cases "show_nat (nat v)") (auto simp: two_digits_def show_int_nat)
qed

lemma and_last_comma_short: "length r < 5 \<Longrightarrow> and_last_comma s = r \<Longrightarrow> s = r"
  by (auto simp: and_last_comma_def split: if_splits option.splits)

lemma and_last_comma_zero: "and_last_comma s = ''00:00'' \<Longrightarrow> s = ''00:00''"
  by (auto simp: and_last_comma_def append_eq_Cons_conv split: if_splits option.splits)

lemma digits_before_colon:
  assumes "list_all is_digit e" and "e @ CHR '':'' # rest = ''00:00''"
  shows "e = ''00''"
proof -
  have "takeWhile is_digit (e @ CHR '':'' # rest) = e"
    using assms(1) by (simp add: takeWhile_append2 list_all_iff is_digit_def)
  moreover have "takeWhile is_digit ''00:00'' = ''00''"
    by (simp add: is_digit_def)
  ultimately show ?thesis using assms(2) by simp
qed

lemma minimal_not_zero_rendering:
  assumes "ms \<noteq> 0"
  shows "formatTime (Some ms) True \<noteq> Inr ''00:00''"
proof
  assume eq: "formatTime (Some ms) True = Inr ''00:00''"
  let ?r = "render True False (entries (formatTime_loop ms times0))"
  let ?ft = "if length ?r = 1 then ''00'' # ?r else ?r"
  from eq assms have "and_last_comma (join '':'' ?ft) = ''00:00''"
    by (simp add: formatTime_def Let_def)
  then have j: "join '':'' ?ft = ''00:00''" by (rule and_last_comma_zero)
  have nn: "\<forall>(k, v)\<in>set (entries (formatTime_loop ms times0)). 0 \<le> v"
    by (rule entries_nonneg[OF formatTime_loop_nonneg[OF nonneg_times0]])
  from render_minimal_first[OF nn] show False
  proof
    assume "?r = []"
    with j show False by simp
  next
    assume "\<exists>v rest. 0 < v \<and> ?r = two_digits v # rest"
    then obtain v rest where v: "0 < v" and r: "?r = two_digits v # rest" by blast
    show False
    proof (cases rest)
      case Nil
      with j r have "two_digits v = ''00''" by simp
      with two_digits_not_zero[OF v] show False by simp
    next
      case (Cons x xs)
      with j r have "two_digits v @ CHR '':'' # join '':'' (x # xs) = ''00:00''" by simp
      from digits_before_colon[OF two_digits_digits[OF v] this] two_digits_not_zero[OF v]
      show False by simp
    qed
  qed
qed

lemma words_not_zero_rendering:
  assumes "ms \<noteq> 0"
  shows "formatTime (Some ms) False \<noteq> Inr ''N/A''"
proof
  assume eq: "formatTime (Some ms) False = Inr ''N/A''"
  let ?r = "render False False (entries (formatTime_loop ms times0))"
  from eq assms have "and_last_comma (join '', '' ?r) = ''N/A''"
    by (simp add: formatTime_def Let_def)
  then have j: "join '', '' ?r = ''N/A''"
    using and_last_comma_short[of "''N/A''" "join '', '' ?r"] by simp
  from render_words_first[of False "entries (formatTime_loop ms times0)"] show False
  proof
    assume "?r = []"
    with j show False by simp
  next
    assume "\<exists>v u rest. 0 < v \<and> ?r = (show_int v @ u) # rest"
    then obtain v u rest where v: "0 < v" and r: "?r = (show_int v @ u) # rest" by blast
    obtain c cs where s: "show_nat (nat v) = c # cs" "is_digit c"
      using show_nat_nonempty[of "nat v"] show_nat_digits[of "nat v"]
      by (cases "show_nat (nat v)") auto
    from j r s v have "hd (join '', '' ?r) = c"
      by (cases rest) (simp_all add: show_int_nat)
    with j have "c = CHR ''N''" by simp
    with is_digit_not_special[OF s(2)] show False by simp
  qed
qed

text \<open>
  C9. A negative number of milliseconds never enters the loop, and a positive one below
  500 rounds to zero seconds, so every count is zero and nothing is rendered: the result
  is the empty string in both modes, returned and not thrown. The renderings of zero,
  \<open>00:00\<close> and \<open>N/A\<close>, are the results of the input 0 only.
\<close>

theorem formatTime_empty_below_half_second:
  "(ms < 0 \<or> (0 < ms \<and> ms < 500) \<longrightarrow> formatTime (Some ms) minimal = Inr [])
   \<and> (formatTime (Some ms) True = Inr ''00:00'' \<longleftrightarrow> ms = 0)
   \<and> (formatTime (Some ms) False = Inr ''N/A'' \<longleftrightarrow> ms = 0)"
proof (intro conjI impI)
  assume a: "ms < 0 \<or> (0 < ms \<and> ms < 500)"
  then have "formatTime_loop ms times0 = times0"
  proof
    assume "ms < 0"
    then show ?thesis by (simp add: formatTime_loop_nonpositive)
  next
    assume b: "0 < ms \<and> ms < 500"
    then have "(ms + 500) div 1000 = 0" by simp
    with b show ?thesis by (simp add: formatTime_loop_below_minute times0_def)
  qed
  moreover have "render minimal False (entries times0) = []"
    by (rule render_zero) (simp add: entries_def times0_def)
  moreover have "ms \<noteq> 0" using a by auto
  ultimately show "formatTime (Some ms) minimal = Inr []"
    by (simp add: formatTime_def Let_def and_last_comma_def)
next
  have "formatTime (Some 0) True = Inr ''00:00''" by (simp add: formatTime_def)
  then show "formatTime (Some ms) True = Inr ''00:00'' \<longleftrightarrow> ms = 0"
    using minimal_not_zero_rendering[of ms] by blast
next
  have "formatTime (Some 0) False = Inr ''N/A''" by (simp add: formatTime_def)
  then show "formatTime (Some ms) False = Inr ''N/A'' \<longleftrightarrow> ms = 0"
    using words_not_zero_rendering[of ms] by blast
qed

theorem formatTime_empty_below_half_second_witness:
  "(-5 :: int) < 0 \<and> formatTime (Some (-5)) True = Inr [] \<and> formatTime (Some (-5)) False = Inr []
   \<and> (0 :: int) < 499 \<and> (499 :: int) < 500
   \<and> formatTime (Some 499) True = Inr [] \<and> formatTime (Some 499) False = Inr []
   \<and> formatTime (Some 0) True = Inr ''00:00'' \<and> formatTime (Some 0) False = Inr ''N/A''"
  using formatTime_empty_below_half_second[of "-5" True] formatTime_empty_below_half_second[of "-5" False]
    formatTime_empty_below_half_second[of 499 True] formatTime_empty_below_half_second[of 499 False]
    formatTime_empty_below_half_second[of 0 True]
  by simp

subsection \<open>The token pattern\<close>

lemma takeWhile_run: "list_all P xs \<Longrightarrow> ys = [] \<or> \<not> P (hd ys) \<Longrightarrow> takeWhile P (xs @ ys) = xs"
  by (cases ys) (simp_all add: takeWhile_append2 list_all_iff)

lemma dropWhile_run: "list_all P xs \<Longrightarrow> ys = [] \<or> \<not> P (hd ys) \<Longrightarrow> dropWhile P (xs @ ys) = ys"
  by (cases ys) (simp_all add: dropWhile_append2 list_all_iff)

lemma in_cls_Digit: "in_cls Digit = is_digit"
  by (rule ext) simp

lemma in_cls_NonDigit: "in_cls NonDigit = (\<lambda>c. \<not> is_digit c)"
  by (rule ext) simp

lemma in_cls_Dot: "in_cls Dot = (\<lambda>c. c = CHR ''.'')"
  by (rule ext) simp

lemma backtrack_greedy:
  "m \<le> k \<Longrightarrow> match_pieces ps (drop k s) = Some n \<Longrightarrow> backtrack c m ps s k = Some (k + n)"
  by (subst backtrack.simps) simp

lemma match_token_greedy:
  assumes a: "a \<noteq> []" "list_all is_digit a"
    and b: "list_all (\<lambda>c. c = CHR ''.'') b"
    and c: "list_all is_digit c" "b = [] \<longrightarrow> c = []"
    and d: "d \<noteq> []" "list_all (\<lambda>c. \<not> is_digit c) d" "c = [] \<longrightarrow> hd d \<noteq> CHR ''.''"
    and r: "rest = [] \<or> is_digit (hd rest)"
  shows "match_pieces token_regex (a @ b @ c @ d @ rest) = Some (length (a @ b @ c @ d))"
proof -
  have nd: "\<not> is_digit (hd d)" using d(1,2) by (cases d) auto
  have 4: "match_pieces [(NonDigit, 1)] (d @ rest) = Some (length d)"
  proof -
    have "takeWhile (\<lambda>c. \<not> is_digit c) (d @ rest) = d"
      using d(2) r by (intro takeWhile_run) auto
    moreover have "1 \<le> length d" using d(1) by (cases d) auto
    ultimately show ?thesis
      using backtrack_greedy[of 1 "length d" "[]" "d @ rest" 0 NonDigit]
      by (simp add: in_cls_NonDigit)
  qed
  have 3: "match_pieces [(Digit, 0), (NonDigit, 1)] (c @ d @ rest) = Some (length c + length d)"
  proof -
    have "takeWhile is_digit (c @ d @ rest) = c"
      using c(1) d(1) nd by (intro takeWhile_run) auto
    then show ?thesis
      using backtrack_greedy[of 0 "length c" "[(NonDigit, 1)]" "c @ d @ rest" "length d" Digit] 4
      by (simp add: in_cls_Digit)
  qed
  have 2: "match_pieces [(Dot, 0), (Digit, 0), (NonDigit, 1)] (b @ c @ d @ rest) = Some (length b + (length c + length d))"
  proof -
    have "c @ d @ rest = [] \<or> hd (c @ d @ rest) \<noteq> CHR ''.''"
    proof (cases c)
      case Nil
      then show ?thesis using d(1,3) by (cases d) auto
    next
      case (Cons x xs)
      then show ?thesis using c(1) is_digit_not_special[of x] by auto
    qed
    then have "takeWhile (\<lambda>c. c = CHR ''.'') (b @ c @ d @ rest) = b"
      using b by (intro takeWhile_run) auto
    then show ?thesis
      using backtrack_greedy[of 0 "length b" "[(Digit, 0), (NonDigit, 1)]" "b @ c @ d @ rest" "length c + length d" Dot] 3
      by (simp add: in_cls_Dot)
  qed
  have "b @ c @ d @ rest = [] \<or> \<not> is_digit (hd (b @ c @ d @ rest))"
  proof (cases b)
    case Nil
    then show ?thesis using c(2) d(1) nd by (cases d) auto
  next
    case (Cons x xs)
    then show ?thesis using b is_digit_not_special[of x] by auto
  qed
  then have "takeWhile is_digit (a @ b @ c @ d @ rest) = a"
    using a(2) by (intro takeWhile_run) auto
  moreover have "1 \<le> length a" using a(1) by (cases a) auto
  ultimately show ?thesis
    using backtrack_greedy[of 1 "length a" "[(Dot, 0), (Digit, 0), (NonDigit, 1)]" "a @ b @ c @ d @ rest"
        "length b + (length c + length d)" Digit] 2
    by (simp add: token_regex_def in_cls_Digit)
qed

lemma exec_all_token:
  assumes "a \<noteq> []" "list_all is_digit a" "list_all (\<lambda>c. c = CHR ''.'') b"
    "list_all is_digit c" "b = [] \<longrightarrow> c = []"
    "d \<noteq> []" "list_all (\<lambda>c. \<not> is_digit c) d" "c = [] \<longrightarrow> hd d \<noteq> CHR ''.''"
    "rest = [] \<or> is_digit (hd rest)"
  shows "exec_all (a @ b @ c @ d @ rest) = (a @ b @ c @ d) # exec_all rest"
proof -
  let ?n = "length (a @ b @ c @ d)"
  have m: "match_pieces token_regex (a @ b @ c @ d @ rest) = Some ?n"
    by (rule match_token_greedy[OF assms])
  have "1 \<le> ?n" using assms(1) by (cases a) auto
  then have "max ?n 1 = ?n" by simp
  moreover have "take ?n (a @ b @ c @ d @ rest) = a @ b @ c @ d" "drop ?n (a @ b @ c @ d @ rest) = rest"
    by simp_all
  ultimately show ?thesis
    using assms(1) by (subst exec_all.simps) (simp only: m option.case, simp)
qed

lemma exec_all_Nil: "exec_all [] = []"
  by (subst exec_all.simps) simp

lemma plain_token_split:
  assumes "plain_token t"
  obtains ds w where "t = ds @ w" "ds \<noteq> []" "list_all is_digit ds" "w \<noteq> []"
    "list_all (\<lambda>c. \<not> is_digit c) w" "hd w \<noteq> CHR ''.''"
proof -
  have "t = takeWhile is_digit t @ dropWhile is_digit t" by simp
  moreover have "list_all is_digit (takeWhile is_digit t)"
    by (simp add: list_all_iff) (meson set_takeWhileD)
  ultimately show ?thesis
    using assms that[of "takeWhile is_digit t" "dropWhile is_digit t"]
    by (auto simp: plain_token_def Let_def)
qed

lemma plain_token_hd: "plain_token t \<Longrightarrow> t \<noteq> [] \<and> is_digit (hd t)"
  by (erule plain_token_split) (auto simp: neq_Nil_conv)

lemma exec_all_plain_tokens: "list_all plain_token ts \<Longrightarrow> exec_all (concat ts) = ts"
proof (induction ts)
  case Nil
  then show ?case by (simp add: exec_all_Nil)
next
  case (Cons t ts)
  from Cons.prems have pt: "plain_token t" and pts: "list_all plain_token ts" by auto
  from pt obtain ds w where t: "t = ds @ w" "ds \<noteq> []" "list_all is_digit ds" "w \<noteq> []"
    "list_all (\<lambda>c. \<not> is_digit c) w" "hd w \<noteq> CHR ''.''"
    by (rule plain_token_split)
  have rest: "concat ts = [] \<or> is_digit (hd (concat ts))"
  proof (cases ts)
    case Nil
    then show ?thesis by simp
  next
    case (Cons u us)
    with pts have "plain_token u" by simp
    from plain_token_hd[OF this] Cons show ?thesis by auto
  qed
  have "exec_all (ds @ [] @ [] @ w @ concat ts) = (ds @ [] @ [] @ w) # exec_all (concat ts)"
    using t rest by (intro exec_all_token) auto
  then show ?case using Cons.IH[OF pts] by (simp add: t)
qed

subsection \<open>One token of the parser\<close>

lemma endsWith_iff: "endsWith s suf \<longleftrightarrow> (\<exists>pre. s = pre @ suf)"
proof
  assume "endsWith s suf"
  then have "s = take (length s - length suf) s @ suf"
    by (metis append_take_drop_id endsWith_def)
  then show "\<exists>pre. s = pre @ suf" ..
next
  assume "\<exists>pre. s = pre @ suf"
  then show "endsWith s suf" by (auto simp: endsWith_def)
qed

lemma endsWith_after_digit:
  assumes "xs \<noteq> []" "is_digit (last xs)" "list_all (\<lambda>c. \<not> is_digit c) suf"
  shows "endsWith (xs @ w) suf = endsWith w suf"
proof
  assume "endsWith w suf"
  then obtain pre where "w = pre @ suf" by (auto simp: endsWith_iff)
  then have "xs @ w = (xs @ pre) @ suf" by simp
  then show "endsWith (xs @ w) suf" unfolding endsWith_iff by blast
next
  assume "endsWith (xs @ w) suf"
  then obtain pre where "xs @ w = pre @ suf" by (auto simp: endsWith_iff)
  then consider us where "xs = pre @ us" "us @ w = suf" | us where "xs @ us = pre" "w = us @ suf"
    by (auto simp: append_eq_append_conv2)
  then show "endsWith w suf"
  proof cases
    case 1
    show ?thesis
    proof (cases "us = []")
      case True
      with 1 show ?thesis by (auto simp: endsWith_iff)
    next
      case False
      with 1 have "last us = last xs" "last us \<in> set suf" by auto
      with assms(2,3) show ?thesis by (auto simp: list_all_iff)
    qed
  next
    case 2
    then show ?thesis by (auto simp: endsWith_iff)
  qed
qed

lemma is_digit_to_lower_iff: "is_digit (to_lower c) = is_digit c"
proof (cases "65 \<le> (of_char c :: nat) \<and> (of_char c :: nat) \<le> 90")
  case False
  then show ?thesis by (auto simp: to_lower_def Let_def)
next
  case True
  then have "\<not> is_digit c" by (auto simp: is_digit_def)
  moreover have "\<not> is_digit (char_of (of_char c + 32 :: nat))"
  proof
    assume "is_digit (char_of (of_char c + 32 :: nat))"
    then have "char_of (of_char c + 32 :: nat) \<in> set ''0123456789''"
      by (simp only: is_digit_def)
    then have "(of_char (char_of (of_char c + 32 :: nat)) :: nat) \<in> of_char ` set ''0123456789''"
      by (rule imageI)
    moreover have "(of_char (char_of (of_char c + 32 :: nat)) :: nat) = of_char c + 32"
      using True by (simp add: of_char_of)
    ultimately show False using True by auto
  qed
  ultimately show ?thesis using True by (simp add: to_lower_def Let_def)
qed

lemma toLowerCase_digits: "list_all is_digit ds \<Longrightarrow> toLowerCase ds = ds"
  by (induction ds) (simp_all add: toLowerCase_def is_digit_to_lower)

lemma toLowerCase_append: "toLowerCase (xs @ ys) = toLowerCase xs @ toLowerCase ys"
  by (simp add: toLowerCase_def)

lemma toLowerCase_nondigits: "list_all (\<lambda>c. \<not> is_digit c) w \<Longrightarrow> list_all (\<lambda>c. \<not> is_digit c) (toLowerCase w)"
  by (simp add: toLowerCase_def list_all_iff is_digit_to_lower_iff)

text \<open>The weight chosen for a token depends on what follows its leading digits only.\<close>

lemma unit_weight_after_digits:
  assumes "ds \<noteq> []" "list_all is_digit ds" "w \<noteq> []" "\<not> is_digit (hd w)"
  shows "unit_weight (ds @ w) = unit_weight w"
proof -
  have l: "is_digit (last ds)" using assms(1,2) by (simp add: list_all_iff)
  have "dropWhile is_digit (ds @ w) = w"
    using assms by (intro dropWhile_run) auto
  moreover have "dropWhile is_digit w = w"
    using assms(3,4) by (cases w) auto
  ultimately have n: "nondigit_run (ds @ w) = nondigit_run w"
    by (simp add: nondigit_run_def)
  have e: "endsWith (ds @ w) suf = endsWith w suf" if "list_all (\<lambda>c. \<not> is_digit c) suf" for suf
    using endsWith_after_digit[OF assms(1) l that] .
  show ?thesis
    unfolding unit_weight_def n
    by (simp add: e is_digit_def cong: if_cong)
qed

lemma numeric_run_plain:
  assumes "ds \<noteq> []" "list_all is_digit ds" "w \<noteq> []" "\<not> is_digit (hd w)" "hd w \<noteq> CHR ''.''"
  shows "numeric_run (ds @ w) = ds"
proof -
  have 1: "dropWhile (\<lambda>c. \<not> is_digit c) (ds @ w) = ds @ w"
    using assms(1,2) by (cases ds) auto
  have 2: "takeWhile is_digit (ds @ w) = ds" "dropWhile is_digit (ds @ w) = w"
    using assms by (auto intro!: takeWhile_run dropWhile_run)
  have 3: "takeWhile (\<lambda>c. c = CHR ''.'') w = []" "dropWhile (\<lambda>c. c = CHR ''.'') w = w"
    "takeWhile is_digit w = []"
    using assms(3,4,5) by (cases w; simp)+
  show ?thesis by (simp add: numeric_run_def 1 2 3 Let_def)
qed

lemma parseInt_digits: "ds \<noteq> [] \<Longrightarrow> list_all is_digit ds \<Longrightarrow> parseInt ds = Some (digits_value ds)"
proof -
  assume ne: "ds \<noteq> []" and "list_all is_digit ds"
  then have tw: "takeWhile is_digit ds = ds" by (simp add: list_all_iff)
  show ?thesis unfolding parseInt_def Let_def tw using ne by simp
qed

lemma parse_step_plain:
  assumes "ds \<noteq> []" "list_all is_digit ds" "w \<noteq> []" "list_all (\<lambda>c. \<not> is_digit c) w" "hd w \<noteq> CHR ''.''"
    and "toLowerCase w = w"
  shows "parse_step acc (ds @ w) =
     (case unit_weight w of
        None \<Rightarrow> acc
      | Some wt \<Rightarrow> (case acc of Some d \<Rightarrow> Some (d + digits_value ds * wt) | None \<Rightarrow> None))"
proof -
  have h: "\<not> is_digit (hd w)" using assms(3,4) by (cases w) auto
  have l: "toLowerCase (ds @ w) = ds @ w"
    by (simp add: toLowerCase_append toLowerCase_digits assms(2,6))
  show ?thesis
    unfolding parse_step_def l Let_def
    by (simp add: unit_weight_after_digits[OF assms(1,2,3) h] numeric_run_plain[OF assms(1,2,3) h assms(5)]
        parseInt_digits[OF assms(1,2)] split: option.splits)
qed

subsection \<open>The decomposition below one week\<close>

lemma loop_minutes:
  "0 \<le> r \<Longrightarrow> r < 60000 \<Longrightarrow> n \<le> 59 \<Longrightarrow>
     formatTime_loop (60000 * int n + r) t = formatTime_loop r (t\<lparr>minutes := minutes t + int n\<rparr>)"
proof (induction n arbitrary: t)
  case 0
  then show ?case by simp
next
  case (Suc n)
  have "formatTime_loop (60000 * int (Suc n) + r) t
      = formatTime_loop (60000 * int n + r) (t\<lparr>minutes := minutes t + 1\<rparr>)"
    using Suc.prems by (subst formatTime_loop.simps) (simp add: algebra_simps)
  also have "\<dots> = formatTime_loop r (t\<lparr>minutes := minutes t + int (Suc n)\<rparr>)"
    using Suc.IH[of "t\<lparr>minutes := minutes t + 1\<rparr>"] Suc.prems by (simp add: algebra_simps)
  finally show ?case .
qed

lemma loop_hours:
  "0 \<le> r \<Longrightarrow> r < 3600000 \<Longrightarrow> n \<le> 23 \<Longrightarrow>
     formatTime_loop (3600000 * int n + r) t = formatTime_loop r (t\<lparr>hours := hours t + int n\<rparr>)"
proof (induction n arbitrary: t)
  case 0
  then show ?case by simp
next
  case (Suc n)
  have "formatTime_loop (3600000 * int (Suc n) + r) t
      = formatTime_loop (3600000 * int n + r) (t\<lparr>hours := hours t + 1\<rparr>)"
    using Suc.prems by (subst formatTime_loop.simps) (simp add: algebra_simps)
  also have "\<dots> = formatTime_loop r (t\<lparr>hours := hours t + int (Suc n)\<rparr>)"
    using Suc.IH[of "t\<lparr>hours := hours t + 1\<rparr>"] Suc.prems by (simp add: algebra_simps)
  finally show ?case .
qed

lemma loop_days:
  "0 \<le> r \<Longrightarrow> r < 86400000 \<Longrightarrow> n \<le> 6 \<Longrightarrow>
     formatTime_loop (86400000 * int n + r) t = formatTime_loop r (t\<lparr>days := days t + int n\<rparr>)"
proof (induction n arbitrary: t)
  case 0
  then show ?case by simp
next
  case (Suc n)
  have "formatTime_loop (86400000 * int (Suc n) + r) t
      = formatTime_loop (86400000 * int n + r) (t\<lparr>days := days t + 1\<rparr>)"
    using Suc.prems by (subst formatTime_loop.simps) (simp add: algebra_simps)
  also have "\<dots> = formatTime_loop r (t\<lparr>days := days t + int (Suc n)\<rparr>)"
    using Suc.IH[of "t\<lparr>days := days t + 1\<rparr>"] Suc.prems by (simp add: algebra_simps)
  finally show ?case .
qed

lemma loop_seconds:
  "s < 60 \<Longrightarrow> formatTime_loop (1000 * int s) (t\<lparr>seconds := 0\<rparr>) = t\<lparr>seconds := int s\<rparr>"
proof (cases "s = 0")
  case True
  then show ?thesis by (simp add: formatTime_loop_nonpositive)
next
  case False
  assume "s < 60"
  moreover have "(1000 * int s + 500) div 1000 = int s" by simp
  ultimately show ?thesis using False by (simp add: formatTime_loop_below_minute)
qed

lemma loop_below_week:
  assumes "d \<le> 6" "h \<le> 23" "m \<le> 59" "s \<le> 59"
  shows "formatTime_loop (86400000 * int d + 3600000 * int h + 60000 * int m + 1000 * int s) times0
     = \<lparr>years = 0, months = 0, weeks = 0, days = int d, hours = int h, minutes = int m, seconds = int s\<rparr>"
proof -
  let ?r3 = "1000 * int s"
  let ?r2 = "60000 * int m + ?r3"
  let ?r1 = "3600000 * int h + ?r2"
  have "formatTime_loop (86400000 * int d + ?r1) times0 = formatTime_loop ?r1 (times0\<lparr>days := int d\<rparr>)"
    using loop_days[of ?r1 d times0] assms by (simp add: times0_def)
  also have "\<dots> = formatTime_loop ?r2 (times0\<lparr>days := int d, hours := int h\<rparr>)"
    using loop_hours[of ?r2 h "times0\<lparr>days := int d\<rparr>"] assms by (simp add: times0_def)
  also have "\<dots> = formatTime_loop ?r3 (times0\<lparr>days := int d, hours := int h, minutes := int m\<rparr>)"
    using loop_minutes[of ?r3 m "times0\<lparr>days := int d, hours := int h\<rparr>"] assms by (simp add: times0_def)
  also have "\<dots> = times0\<lparr>days := int d, hours := int h, minutes := int m, seconds := int s\<rparr>"
    using loop_seconds[of s "times0\<lparr>days := int d, hours := int h, minutes := int m\<rparr>"] assms
    by (simp add: times0_def)
  finally show ?thesis by (simp add: times0_def add.assoc)
qed

text \<open>Every whole number of seconds below one week is such a sum.\<close>

lemma below_week_sum:
  assumes "0 < ms" "ms < 604800000" "ms mod 1000 = 0"
  obtains d h m s where "d \<le> 6" "h \<le> 23" "m \<le> 59" "s \<le> 59"
    "ms = 86400000 * int d + 3600000 * int h + 60000 * int m + 1000 * int s"
    "ms mod 60000 = 1000 * int s" "ms mod 3600000 = 60000 * int m + 1000 * int s"
    "ms mod 86400000 = 3600000 * int h + 60000 * int m + 1000 * int s"
proof -
  define r1 where "r1 = ms mod 86400000"
  define r2 where "r2 = ms mod 3600000"
  define r3 where "r3 = ms mod 60000"
  have b: "0 \<le> r1" "r1 < 86400000" "0 \<le> r2" "r2 < 3600000" "0 \<le> r3" "r3 < 60000"
    by (simp_all add: r1_def r2_def r3_def)
  have e21: "r2 = r1 mod 3600000" unfolding r1_def r2_def by (simp add: mod_mod_cancel)
  have e32: "r3 = r2 mod 60000" unfolding r2_def r3_def by (simp add: mod_mod_cancel)
  have e3: "r3 mod 1000 = 0" unfolding r3_def using assms(3) by (simp add: mod_mod_cancel)
  have q0: "ms = 86400000 * (ms div 86400000) + r1" unfolding r1_def by simp
  have q1: "r1 = 3600000 * (r1 div 3600000) + r2" unfolding e21 by simp
  have q2: "r2 = 60000 * (r2 div 60000) + r3" unfolding e32 by simp
  have "1000 * (r3 div 1000) + r3 mod 1000 = r3" by (rule mult_div_mod_eq)
  with e3 have q3: "r3 = 1000 * (r3 div 1000)" by linarith
  have n: "0 \<le> ms div 86400000" "0 \<le> r1 div 3600000" "0 \<le> r2 div 60000" "0 \<le> r3 div 1000"
    using assms(1) b by (simp_all add: pos_imp_zdiv_nonneg_iff)
  define d where "d = nat (ms div 86400000)"
  define h where "h = nat (r1 div 3600000)"
  define m where "m = nat (r2 div 60000)"
  define s where "s = nat (r3 div 1000)"
  have i: "int d = ms div 86400000" "int h = r1 div 3600000" "int m = r2 div 60000" "int s = r3 div 1000"
    using n by (simp_all add: d_def h_def m_def s_def)
  have t3: "r3 = 1000 * int s" using q3 i(4) by linarith
  have t2: "r2 = 60000 * int m + 1000 * int s" using q2 t3 i(3) by linarith
  have t1: "r1 = 3600000 * int h + 60000 * int m + 1000 * int s" using q1 t2 i(2) by linarith
  have t0: "ms = 86400000 * int d + 3600000 * int h + 60000 * int m + 1000 * int s"
    using q0 t1 i(1) by linarith
  have "d \<le> 6" using t0 assms(2) by linarith
  moreover have "h \<le> 23" using t1 b(2) by linarith
  moreover have "m \<le> 59" using t2 b(4) by linarith
  moreover have "s \<le> 59" using t3 b(6) by linarith
  moreover note t0
  moreover have "ms mod 60000 = 1000 * int s" using t3 unfolding r3_def .
  moreover have "ms mod 3600000 = 60000 * int m + 1000 * int s" using t2 unfolding r2_def .
  moreover have "ms mod 86400000 = 3600000 * int h + 60000 * int m + 1000 * int s"
    using t1 unfolding r1_def .
  ultimately show ?thesis by (rule that)
qed

subsection \<open>The rendering in words and its tokens\<close>

lemma render_words: "render False first es = map rendered_unit (filter (\<lambda>kv. 0 < snd kv) es)"
  by (induction es) (auto simp: rendered_unit_def unit_word_def)

lemma lastIndexOf_from_absent: "c \<notin> set s \<Longrightarrow> lastIndexOf_from c s i found = found"
  by (induction s arbitrary: i found) auto

lemma lastIndexOf_from_append:
  "lastIndexOf_from c (xs @ ys) i found = lastIndexOf_from c ys (i + length xs) (lastIndexOf_from c xs i found)"
  by (induction xs arbitrary: i found) auto

lemma lastIndexOf_last: "c \<notin> set b \<Longrightarrow> lastIndexOf c (a @ c # b) = Some (length a)"
  by (simp add: lastIndexOf_def lastIndexOf_from_append lastIndexOf_from_absent)

lemma and_last_comma_none: "CHR '','' \<notin> set s \<Longrightarrow> and_last_comma s = s"
  by (simp add: and_last_comma_def)

lemma and_last_comma_last:
  "CHR '','' \<notin> set b \<Longrightarrow> and_last_comma (a @ CHR '','' # b) = a @ '' and '' @ b"
  by (simp add: and_last_comma_def lastIndexOf_last)

lemma and_last_comma_later:
  assumes "CHR '','' \<in> set rest"
  shows "and_last_comma (pre @ rest) = pre @ and_last_comma rest"
proof -
  from assms obtain a b where r: "rest = a @ CHR '','' # b" "CHR '','' \<notin> set b"
    by (meson split_list_last)
  have "and_last_comma ((pre @ a) @ CHR '','' # b) = (pre @ a) @ '' and '' @ b"
    using r(2) by (rule and_last_comma_last)
  moreover have "and_last_comma (a @ CHR '','' # b) = a @ '' and '' @ b"
    using r(2) by (rule and_last_comma_last)
  ultimately show ?thesis by (simp add: r(1))
qed

lemma unit_word_cases: "valid_unit kv \<Longrightarrow> unit_word (fst kv) (snd kv) \<in> set unit_words"
  by (auto simp: valid_unit_def small_units_def unit_word_def unit_words_def)

lemma unit_words_plain:
  "u \<in> set unit_words \<Longrightarrow> u \<noteq> [] \<and> list_all (\<lambda>c. \<not> is_digit c \<and> \<not> is_space c \<and> c \<noteq> CHR '','' \<and> c \<noteq> CHR '':'') u
     \<and> hd u \<noteq> CHR ''.'' \<and> toLowerCase u = u"
proof -
  have "list_all (\<lambda>u. u \<noteq> [] \<and> list_all (\<lambda>c. \<not> is_digit c \<and> \<not> is_space c \<and> c \<noteq> CHR '','' \<and> c \<noteq> CHR '':'') u
     \<and> hd u \<noteq> CHR ''.'' \<and> toLowerCase u = u) unit_words"
    by code_simp
  then show "u \<in> set unit_words \<Longrightarrow> ?thesis" by (simp add: list_all_iff)
qed

lemma show_int_plain:
  assumes "0 < v"
  shows "show_int v \<noteq> [] \<and> list_all is_digit (show_int v)"
  using assms show_nat_nonempty[of "nat v"] show_nat_digits[of "nat v"] by (simp add: show_int_nat)

lemma digits_plain: "list_all is_digit ds \<Longrightarrow> CHR '','' \<notin> set ds \<and> CHR '':'' \<notin> set ds \<and> filter (\<lambda>c. \<not> is_space c) ds = ds"
  using is_digit_not_special is_digit_not_space by (auto simp: list_all_iff)

lemma rendered_unit_plain:
  assumes "valid_unit kv"
  shows "CHR '','' \<notin> set (rendered_unit kv)" "CHR '':'' \<notin> set (rendered_unit kv)"
    "CHR '' '' \<in> set (rendered_unit kv)"
    "filter (\<lambda>c. \<not> is_space c) (rendered_unit kv) = unit_token [] kv"
proof -
  from assms have v: "0 < snd kv" by (simp add: valid_unit_def)
  note d = digits_plain[OF conjunct2[OF show_int_plain[OF v]]]
  note u = unit_words_plain[OF unit_word_cases[OF assms]]
  show "CHR '','' \<notin> set (rendered_unit kv)" "CHR '':'' \<notin> set (rendered_unit kv)"
    using d u by (auto simp: rendered_unit_def list_all_iff)
  show "CHR '' '' \<in> set (rendered_unit kv)" by (simp add: rendered_unit_def)
  have "filter (\<lambda>c. \<not> is_space c) (unit_word (fst kv) (snd kv)) = unit_word (fst kv) (snd kv)"
    using u by (simp add: list_all_iff)
  then show "filter (\<lambda>c. \<not> is_space c) (rendered_unit kv) = unit_token [] kv"
    using d by (simp add: rendered_unit_def unit_token_def is_space_def)
qed

lemma unit_token_sep: "unit_token [] kv @ sep = unit_token sep kv"
  by (simp add: unit_token_def)

text \<open>
  The rendering in words of a list of units, with its blanks stripped, is the
  concatenation of the tokens; it has no colon and at least one blank.
\<close>

lemma rendering_stripped:
  "list_all valid_unit kvs \<Longrightarrow> kvs \<noteq> [] \<Longrightarrow>
     CHR '':'' \<notin> set (and_last_comma (join '', '' (map rendered_unit kvs)))
     \<and> CHR '' '' \<in> set (and_last_comma (join '', '' (map rendered_unit kvs)))
     \<and> (CHR '','' \<in> set (join '', '' (map rendered_unit kvs)) \<longleftrightarrow> 2 \<le> length kvs)
     \<and> filter (\<lambda>c. \<not> is_space c) (and_last_comma (join '', '' (map rendered_unit kvs))) = concat (sep_tokens kvs)"
proof (induction kvs rule: sep_tokens.induct)
  case 1
  then show ?case by simp
next
  case (2 x)
  then have v: "valid_unit x" by simp
  show ?case
    using rendered_unit_plain[OF v] by (simp add: and_last_comma_none)
next
  case (3 x y)
  then have v: "valid_unit x" "valid_unit y" by simp_all
  have "and_last_comma (rendered_unit x @ CHR '','' # CHR '' '' # rendered_unit y)
      = rendered_unit x @ '' and '' @ CHR '' '' # rendered_unit y"
    using rendered_unit_plain(1)[OF v(2)] by (intro and_last_comma_last) simp
  then show ?case
    using rendered_unit_plain[OF v(1)] rendered_unit_plain[OF v(2)]
    by (simp add: is_space_def unit_token_def)
next
  case (4 x y z r)
  then have v: "valid_unit x" and vs: "list_all valid_unit (y # z # r)" by simp_all
  let ?rest = "join '', '' (map rendered_unit (y # z # r))"
  from "4.IH"[OF vs] have ih: "CHR '':'' \<notin> set (and_last_comma ?rest)"
    "CHR '','' \<in> set ?rest"
    "filter (\<lambda>c. \<not> is_space c) (and_last_comma ?rest) = concat (sep_tokens (y # z # r))"
    by simp_all
  have j: "join '', '' (map rendered_unit (x # y # z # r)) = (rendered_unit x @ '', '') @ ?rest"
    by simp
  have a: "and_last_comma (join '', '' (map rendered_unit (x # y # z # r)))
      = (rendered_unit x @ '', '') @ and_last_comma ?rest"
    unfolding j using ih(2) by (rule and_last_comma_later)
  show ?case
    unfolding a
    using rendered_unit_plain[OF v] ih j
    by (simp add: is_space_def unit_token_def)
qed

subsection \<open>Parsing a rendering in words\<close>

lemma separated_word_weights:
  "u \<in> set unit_words \<Longrightarrow> unit_weight (u @ '','') = None \<and> unit_weight (u @ ''and'') = None"
proof -
  have "list_all (\<lambda>u. unit_weight (u @ '','') = None \<and> unit_weight (u @ ''and'') = None) unit_words"
    by code_simp
  then show "u \<in> set unit_words \<Longrightarrow> ?thesis" by (simp add: list_all_iff)
qed

lemma small_unit_weights:
  "k \<in> set small_units \<Longrightarrow> unit_weight k = Some (word_weight k) \<and> unit_weight (butlast k) = Some (word_weight k)"
proof -
  have "list_all (\<lambda>k. unit_weight k = Some (word_weight k) \<and> unit_weight (butlast k) = Some (word_weight k)) small_units"
    by code_simp
  then show "k \<in> set small_units \<Longrightarrow> ?thesis" by (simp add: list_all_iff)
qed

lemma unit_token_shape:
  assumes "valid_unit kv" "sep \<in> {[], '','', ''and''}"
  shows "show_int (snd kv) \<noteq> []" "list_all is_digit (show_int (snd kv))"
    "unit_word (fst kv) (snd kv) @ sep \<noteq> []"
    "list_all (\<lambda>c. \<not> is_digit c) (unit_word (fst kv) (snd kv) @ sep)"
    "hd (unit_word (fst kv) (snd kv) @ sep) \<noteq> CHR ''.''"
    "toLowerCase (unit_word (fst kv) (snd kv) @ sep) = unit_word (fst kv) (snd kv) @ sep"
proof -
  from assms(1) have v: "0 < snd kv" by (simp add: valid_unit_def)
  note u = unit_words_plain[OF unit_word_cases[OF assms(1)]]
  show "show_int (snd kv) \<noteq> []" "list_all is_digit (show_int (snd kv))"
    using show_int_plain[OF v] by simp_all
  show "unit_word (fst kv) (snd kv) @ sep \<noteq> []" using u by simp
  have s: "list_all (\<lambda>c. \<not> is_digit c) sep" "toLowerCase sep = sep"
    using assms(2) by (auto simp: is_digit_def toLowerCase_def to_lower_def)
  show "list_all (\<lambda>c. \<not> is_digit c) (unit_word (fst kv) (snd kv) @ sep)"
    using u s(1) by (auto simp: list_all_iff)
  show "hd (unit_word (fst kv) (snd kv) @ sep) \<noteq> CHR ''.''" using u by simp
  show "toLowerCase (unit_word (fst kv) (snd kv) @ sep) = unit_word (fst kv) (snd kv) @ sep"
    using u s(2) by (simp add: toLowerCase_append)
qed

lemma plain_unit_token:
  assumes "valid_unit kv" "sep \<in> {[], '','', ''and''}"
  shows "plain_token (unit_token sep kv)"
proof -
  note s = unit_token_shape[OF assms]
  have h: "\<not> is_digit (hd (unit_word (fst kv) (snd kv) @ sep))"
    using s(3,4) by (cases "unit_word (fst kv) (snd kv) @ sep") auto
  have "takeWhile is_digit (unit_token sep kv) = show_int (snd kv)"
    "dropWhile is_digit (unit_token sep kv) = unit_word (fst kv) (snd kv) @ sep"
    unfolding unit_token_def using s(2,3) h by (auto intro!: takeWhile_run dropWhile_run)
  then show ?thesis using s by (simp add: plain_token_def)
qed

lemma parse_step_unit_token:
  assumes "valid_unit kv"
  shows "parse_step acc (unit_token '','' kv) = acc" "parse_step acc (unit_token ''and'' kv) = acc"
    "parse_step (Some a) (unit_token [] kv) = Some (a + snd kv * word_weight (fst kv))"
proof -
  from assms have v: "0 < snd kv" and k: "fst kv \<in> set small_units" by (simp_all add: valid_unit_def)
  note w = separated_word_weights[OF unit_word_cases[OF assms]]
  have dv: "digits_value (show_int (snd kv)) = snd kv"
    using v by (simp add: show_int_nat digits_value_show_nat)
  show "parse_step acc (unit_token '','' kv) = acc"
    unfolding unit_token_def
    using parse_step_plain[OF unit_token_shape[OF assms, of "'',''"], of acc] w by simp
  show "parse_step acc (unit_token ''and'' kv) = acc"
    unfolding unit_token_def
    using parse_step_plain[OF unit_token_shape[OF assms, of "''and''"], of acc] w by simp
  have "unit_weight (unit_word (fst kv) (snd kv)) = Some (word_weight (fst kv))"
    using small_unit_weights[OF k] by (simp add: unit_word_def)
  then show "parse_step (Some a) (unit_token [] kv) = Some (a + snd kv * word_weight (fst kv))"
    unfolding unit_token_def
    using parse_step_plain[OF unit_token_shape[OF assms, of "[]"], of "Some a"] dv by simp
qed

lemma sep_tokens_plain: "list_all valid_unit kvs \<Longrightarrow> list_all plain_token (sep_tokens kvs)"
  by (induction kvs rule: sep_tokens.induct) (simp_all add: plain_unit_token)

lemma sep_tokens_parsed:
  "list_all valid_unit kvs \<Longrightarrow> kvs \<noteq> [] \<Longrightarrow>
     foldl parse_step (Some a) (sep_tokens kvs) = Some (a + snd (last kvs) * word_weight (fst (last kvs)))"
  by (induction kvs rule: sep_tokens.induct) (simp_all add: parse_step_unit_token)

lemma plain_tokens_not_digits:
  assumes "list_all plain_token ts" "ts \<noteq> []"
  shows "\<not> list_all is_digit (concat ts)"
proof -
  from assms obtain t where t: "t \<in> set ts" "plain_token t"
    by (cases ts) auto
  from t(2) obtain ds w where w: "t = ds @ w" "w \<noteq> []" "list_all (\<lambda>c. \<not> is_digit c) w"
    by (rule plain_token_split)
  then have "hd w \<in> set t" "\<not> is_digit (hd w)" by (cases w; simp)+
  with t(1) show ?thesis by (auto simp: list_all_iff)
qed

lemma sep_tokens_nonempty: "kvs \<noteq> [] \<Longrightarrow> sep_tokens kvs \<noteq> []"
  by (induction kvs rule: sep_tokens.induct) simp_all

text \<open>
  What the parser makes of a rendering in words: the last unit alone, since every
  other token ends with a comma or with \<open>and\<close> and no unit test accepts it.
\<close>

lemma parseTime_rendering:
  assumes "list_all valid_unit kvs" "kvs \<noteq> []"
  shows "parseTime (and_last_comma (join '', '' (map rendered_unit kvs)))
     = Number (snd (last kvs) * word_weight (fst (last kvs)))"
proof -
  let ?str = "and_last_comma (join '', '' (map rendered_unit kvs))"
  note r = rendering_stripped[OF assms]
  have c: "colon_form ?str = ?str" using r by (simp add: colon_form_def)
  have b: "strip_blanks ?str = concat (sep_tokens kvs)" using r by (simp add: strip_blanks_def)
  have p: "list_all plain_token (sep_tokens kvs)" by (rule sep_tokens_plain[OF assms(1)])
  have n: "bare_number (concat (sep_tokens kvs)) = concat (sep_tokens kvs)"
    using plain_tokens_not_digits[OF p sep_tokens_nonempty[OF assms(2)]] by (simp add: bare_number_def)
  have e: "exec_all (concat (sep_tokens kvs)) = sep_tokens kvs"
    by (rule exec_all_plain_tokens[OF p])
  have "valid_unit (last kvs)" using assms by (simp add: list_all_iff)
  then have "0 < snd (last kvs) * word_weight (fst (last kvs))"
    by (auto simp: valid_unit_def word_weight_def)
  then have "snd (last kvs) * word_weight (fst (last kvs)) \<noteq> 0" by linarith
  then show ?thesis
    using sep_tokens_parsed[OF assms, of 0]
    by (simp add: parseTime_def c b n e)
qed

subsection \<open>Formatting, then parsing\<close>

text \<open>
  C4, as the code has it. For a duration of whole seconds, minutes, hours and days,
  not zero and below one week, the rendering in words parses to the part of the
  duration that the smallest unit present contributes: every unit but the last is
  followed by a comma or by \<open>and\<close>, and the parser ignores such a token. So the
  duration comes back exactly when it is a whole number of one unit alone.
\<close>

theorem parseTime_formatTime_last_unit:
  assumes "0 < ms" and "ms < 604800000" and "ms mod 1000 = 0"
  shows "\<exists>str. formatTime (Some ms) False = Inr str
           \<and> parseTime str = Number (smallest_unit_ms ms)
           \<and> (parseTime str = Number ms \<longleftrightarrow> single_unit ms)"
proof -
  from assms obtain d h m s where b: "d \<le> 6" "h \<le> 23" "m \<le> 59" "s \<le> 59"
    and t0: "ms = 86400000 * int d + 3600000 * int h + 60000 * int m + 1000 * int s"
    and e1: "ms mod 60000 = 1000 * int s"
    and e2: "ms mod 3600000 = 60000 * int m + 1000 * int s"
    and e3: "ms mod 86400000 = 3600000 * int h + 60000 * int m + 1000 * int s"
    by (rule below_week_sum)
  define kvs where "kvs = filter (\<lambda>kv. 0 < snd kv)
    [(''days'', int d), (''hours'', int h), (''minutes'', int m), (''seconds'', int s)]"
  let ?str = "and_last_comma (join '', '' (map rendered_unit kvs))"
  have loop: "formatTime_loop ms times0
     = \<lparr>years = 0, months = 0, weeks = 0, days = int d, hours = int h, minutes = int m, seconds = int s\<rparr>"
    unfolding t0 by (rule loop_below_week[OF b])
  have "render False False (entries (formatTime_loop ms times0)) = map rendered_unit kvs"
    unfolding loop render_words by (simp add: entries_def kvs_def)
  then have f: "formatTime (Some ms) False = Inr ?str"
    using assms(1) by (simp add: formatTime_def Let_def)
  have v: "list_all valid_unit kvs"
    by (simp add: kvs_def valid_unit_def small_units_def)
  have pos: "0 < d \<or> 0 < h \<or> 0 < m \<or> 0 < s" using assms(1) t0 by auto
  then have ne: "kvs \<noteq> []" by (auto simp: kvs_def)
  have l: "snd (last kvs) * word_weight (fst (last kvs))
     = (if 0 < s then 1000 * int s else if 0 < m then 60000 * int m
        else if 0 < h then 3600000 * int h else 86400000 * int d)"
    using pos by (auto simp: kvs_def word_weight_def)
  have sm: "smallest_unit_ms ms
     = (if 0 < s then 1000 * int s else if 0 < m then 60000 * int m
        else if 0 < h then 3600000 * int h else 86400000 * int d)"
    unfolding smallest_unit_ms_def e1 e2 e3 by (simp add: t0)
  have p: "parseTime ?str = Number (smallest_unit_ms ms)"
    using parseTime_rendering[OF v ne] l sm by simp
  have su: "single_unit ms \<longleftrightarrow>
     (h = 0 \<and> m = 0 \<and> s = 0) \<or> (d = 0 \<and> m = 0 \<and> s = 0) \<or> (d = 0 \<and> h = 0 \<and> s = 0) \<or> (d = 0 \<and> h = 0 \<and> m = 0)"
    unfolding single_unit_def e1 e2 e3 using b by (auto simp: t0)
  have "smallest_unit_ms ms = ms \<longleftrightarrow>
     (h = 0 \<and> m = 0 \<and> s = 0) \<or> (d = 0 \<and> m = 0 \<and> s = 0) \<or> (d = 0 \<and> h = 0 \<and> s = 0) \<or> (d = 0 \<and> h = 0 \<and> m = 0)"
    unfolding sm using pos by (auto simp: t0)
  with su p have "parseTime ?str = Number ms \<longleftrightarrow> single_unit ms" by simp
  with f p show ?thesis by blast
qed

theorem parseTime_formatTime_last_unit_witness:
  "(0::int) < 172800000 \<and> (172800000::int) < 604800000 \<and> (172800000::int) mod 1000 = 0
   \<and> single_unit 172800000 \<and> smallest_unit_ms 172800000 = 172800000
   \<and> formatTime (Some 172800000) False = Inr ''2 days''
   \<and> parseTime ''2 days'' = Number 172800000
   \<and> (0::int) < 90061000 \<and> (90061000::int) < 604800000 \<and> (90061000::int) mod 1000 = 0
   \<and> \<not> single_unit 90061000 \<and> smallest_unit_ms 90061000 = 1000
   \<and> (\<exists>str. formatTime (Some 90061000) False = Inr str \<and> parseTime str = Number 1000)"
proof -
  have a: "(0::int) < 172800000" "(172800000::int) < 604800000" "(172800000::int) mod 1000 = 0"
    by simp_all
  have b: "(0::int) < 90061000" "(90061000::int) < 604800000" "(90061000::int) mod 1000 = 0"
    by simp_all
  have c: "single_unit 172800000" "smallest_unit_ms 172800000 = 172800000"
    "\<not> single_unit 90061000" "smallest_unit_ms 90061000 = 1000"
    by (simp_all add: single_unit_def smallest_unit_ms_def)
  have d: "formatTime (Some 172800000) False = Inr ''2 days''" by code_simp
  from parseTime_formatTime_last_unit[OF a] d c
  have e: "parseTime ''2 days'' = Number 172800000" by auto
  from parseTime_formatTime_last_unit[OF b] c
  have f: "\<exists>str. formatTime (Some 90061000) False = Inr str \<and> parseTime str = Number 1000" by auto
  show ?thesis using a b c d e f by simp
qed

text \<open>
  C4 as stated fails: 61000 ms is one minute and one second, and its rendering in
  words parses to 1000; 90061000 ms is one day, one hour, one minute and one second,
  and its rendering parses to 1000 as well.
\<close>

theorem parseTime_formatTime_counterexample:
  "formatTime (Some 61000) False = Inr ''1 minute and  1 second''
   \<and> parseTime ''1 minute and  1 second'' = Number 1000
   \<and> formatTime (Some 90061000) False = Inr ''1 day, 1 hour, 1 minute and  1 second''
   \<and> parseTime ''1 day, 1 hour, 1 minute and  1 second'' = Number 1000"
  by code_simp

subsection \<open>Decimal values in parseTime\<close>

text \<open>
  In general, for a decimal value with digits on both sides of one dot: the fraction
  never contributes, the integer part is multiplied by the weight that the unit tests
  choose, and these tests see the suffix as they would after \<open>0.0\<close>. For the one-letter
  units and the singular unit words the result is that of the token without fraction.
\<close>

lemma unit_weight_cong:
  assumes n: "nondigit_run a = nondigit_run b"
    and e: "\<And>suf. list_all (\<lambda>c. \<not> is_digit c) suf \<Longrightarrow> endsWith a suf = endsWith b suf"
  shows "unit_weight a = unit_weight b"
proof -
  have s: "endsWith a ''seconds'' = endsWith b ''seconds''" "endsWith a ''second'' = endsWith b ''second''"
    "endsWith a ''s'' = endsWith b ''s''"
    "endsWith a ''minutes'' = endsWith b ''minutes''" "endsWith a ''minute'' = endsWith b ''minute''"
    "endsWith a ''m'' = endsWith b ''m''"
    "endsWith a ''hours'' = endsWith b ''hours''" "endsWith a ''hour'' = endsWith b ''hour''"
    "endsWith a ''h'' = endsWith b ''h''"
    "endsWith a ''days'' = endsWith b ''days''" "endsWith a ''day'' = endsWith b ''day''"
    "endsWith a ''d'' = endsWith b ''d''"
    "endsWith a ''weeks'' = endsWith b ''weeks''" "endsWith a ''week'' = endsWith b ''week''"
    "endsWith a ''w'' = endsWith b ''w''"
    "endsWith a ''months'' = endsWith b ''months''" "endsWith a ''month'' = endsWith b ''month''"
    "endsWith a ''years'' = endsWith b ''years''" "endsWith a ''year'' = endsWith b ''year''"
    "endsWith a ''y'' = endsWith b ''y''"
    by (rule e, simp add: is_digit_def)+
  show ?thesis unfolding unit_weight_def n s ..
qed

lemma nondigit_run_decimal:
  assumes "list_all is_digit e1" "e2 \<noteq> []" "list_all is_digit e2"
  shows "nondigit_run (e1 @ ''.'' @ e2 @ w) = ''.''"
proof -
  have "dropWhile is_digit (e1 @ (''.'' @ e2 @ w)) = ''.'' @ e2 @ w"
    using assms(1) by (intro dropWhile_run) (auto simp: is_digit_def)
  moreover have "takeWhile (\<lambda>c. \<not> is_digit c) (''.'' @ (e2 @ w)) = ''.''"
    using assms(2,3) by (intro takeWhile_run) (auto simp: is_digit_def neq_Nil_conv)
  ultimately show ?thesis by (simp add: nondigit_run_def)
qed

lemma endsWith_decimal:
  assumes "e2 \<noteq> []" "list_all is_digit e2" "list_all (\<lambda>c. \<not> is_digit c) suf"
  shows "endsWith (e1 @ ''.'' @ e2 @ w) suf = endsWith w suf"
proof -
  have "is_digit (last (e1 @ ''.'' @ e2))" using assms(1,2) by (simp add: list_all_iff)
  from endsWith_after_digit[OF _ this assms(3), of w] show ?thesis by simp
qed

lemma unit_weight_decimal:
  assumes "list_all is_digit d1" "d2 \<noteq> []" "list_all is_digit d2"
  shows "unit_weight (d1 @ ''.'' @ d2 @ w) = unit_weight (''0.0'' @ w)"
proof (rule unit_weight_cong)
  have z: "list_all is_digit ''0''" "''0'' \<noteq> []" by (simp_all add: is_digit_def)
  have "nondigit_run (''0'' @ ''.'' @ ''0'' @ w) = ''.''"
    by (rule nondigit_run_decimal[OF z(1) z(2) z(1)])
  then show "nondigit_run (d1 @ ''.'' @ d2 @ w) = nondigit_run (''0.0'' @ w)"
    using nondigit_run_decimal[OF assms, of w] by simp
  fix suf
  assume s: "list_all (\<lambda>c. \<not> is_digit c) suf"
  have "endsWith (''0'' @ ''.'' @ ''0'' @ w) suf = endsWith w suf"
    by (rule endsWith_decimal[OF z(2) z(1) s])
  then show "endsWith (d1 @ ''.'' @ d2 @ w) suf = endsWith (''0.0'' @ w) suf"
    using endsWith_decimal[OF assms(2,3) s, of d1 w] by simp
qed

lemma parseInt_decimal:
  assumes "d1 \<noteq> []" "list_all is_digit d1" "d2 \<noteq> []" "list_all is_digit d2" "w \<noteq> []" "\<not> is_digit (hd w)"
  shows "parseInt (numeric_run (d1 @ ''.'' @ d2 @ w)) = Some (digits_value d1)"
proof -
  let ?s = "d1 @ CHR ''.'' # d2 @ w"
  have 1: "dropWhile (\<lambda>c. \<not> is_digit c) ?s = ?s"
    using assms(1,2) by (cases d1) auto
  have 2: "takeWhile is_digit ?s = d1" "dropWhile is_digit ?s = CHR ''.'' # d2 @ w"
    using assms(2) by (auto intro!: takeWhile_run dropWhile_run simp: is_digit_def)
  have 3: "takeWhile (\<lambda>c. c = CHR ''.'') (d2 @ w) = []"
    "dropWhile (\<lambda>c. c = CHR ''.'') (d2 @ w) = d2 @ w"
    using assms(3,4) is_digit_not_special[of "hd d2"] by (cases d2; simp)+
  have 4: "takeWhile is_digit (d2 @ w) = d2"
    using assms(4,5,6) by (intro takeWhile_run) auto
  have n: "numeric_run ?s = d1 @ CHR ''.'' # d2"
    unfolding numeric_run_def Let_def 1 2 by (simp add: 3 4)
  have "takeWhile is_digit (d1 @ CHR ''.'' # d2) = d1"
    using assms(2) by (intro takeWhile_run) (auto simp: is_digit_def)
  then have "parseInt (d1 @ CHR ''.'' # d2) = Some (digits_value d1)"
    unfolding parseInt_def Let_def using assms(1) by simp
  then show ?thesis using n by simp
qed

lemma parseTime_decimal:
  assumes "d1 \<noteq> []" "list_all is_digit d1" "d2 \<noteq> []" "list_all is_digit d2"
    and "u \<noteq> []" "list_all (\<lambda>c. \<not> is_digit c \<and> c \<noteq> CHR '' '' \<and> c \<noteq> CHR '':'') u"
    and "toLowerCase u = u"
  shows "parseTime (d1 @ ''.'' @ d2 @ u) =
     (case unit_weight (''0.0'' @ u) of
        None \<Rightarrow> Null
      | Some w \<Rightarrow> if digits_value d1 * w = 0 then Null else Number (digits_value d1 * w))"
proof -
  let ?s = "d1 @ ''.'' @ d2 @ u"
  have un: "list_all (\<lambda>c. \<not> is_digit c) u" using assms(6) by (simp add: list_all_iff)
  then have hu: "\<not> is_digit (hd u)" using assms(5) by (cases u) auto
  have dc: "CHR '':'' \<notin> set d1" "CHR '':'' \<notin> set d2" "CHR '' '' \<notin> set d1" "CHR '' '' \<notin> set d2"
    using assms(2,4) is_digit_not_special by (auto simp: list_all_iff)
  have c: "colon_form ?s = ?s" using dc assms(6) by (auto simp: colon_form_def list_all_iff)
  have b: "strip_blanks ?s = ?s" using dc assms(6) by (auto simp: strip_blanks_def list_all_iff)
  have "\<not> list_all is_digit ?s" by (simp add: is_digit_def)
  then have n: "bare_number ?s = ?s" by (simp add: bare_number_def)
  have "exec_all (d1 @ ''.'' @ d2 @ u @ []) = (d1 @ ''.'' @ d2 @ u) # exec_all []"
    using assms(1-5) un by (intro exec_all_token) auto
  then have e: "exec_all ?s = [?s]" by (simp add: exec_all_Nil)
  have "to_lower CHR ''.'' = CHR ''.''" by (simp add: to_lower_def)
  then have l: "toLowerCase ?s = ?s"
    using assms(7) toLowerCase_digits[OF assms(2)] toLowerCase_digits[OF assms(4)]
    by (simp add: toLowerCase_def)
  have p: "parse_step (Some 0) ?s =
     (case unit_weight (''0.0'' @ u) of None \<Rightarrow> Some 0 | Some w \<Rightarrow> Some (digits_value d1 * w))"
    unfolding parse_step_def l Let_def unit_weight_decimal[OF assms(2,3,4)]
      parseInt_decimal[OF assms(1,2,3,4,5) hu]
    by (simp split: option.splits)
  show ?thesis
    unfolding parseTime_def c b n e using p by (simp split: option.splits)
qed

text \<open>The units for which the value of a decimal token is that of the token without fraction.\<close>

lemma parseTime_decimal_exact:
  assumes "d1 \<noteq> []" "list_all is_digit d1" "d2 \<noteq> []" "list_all is_digit d2"
    and "u \<in> set [''s'', ''m'', ''h'', ''d'', ''w'', ''y'', ''second'', ''minute'', ''hour'', ''day'', ''week'', ''year'']"
  shows "parseTime (d1 @ ''.'' @ d2 @ u) = parseTime (d1 @ u)"
proof -
  have "list_all (\<lambda>u. u \<noteq> [] \<and> list_all (\<lambda>c. \<not> is_digit c \<and> c \<noteq> CHR '' '' \<and> c \<noteq> CHR '':'') u
          \<and> hd u \<noteq> CHR ''.'' \<and> toLowerCase u = u \<and> unit_weight (''0.0'' @ u) = unit_weight u)
        [''s'', ''m'', ''h'', ''d'', ''w'', ''y'', ''second'', ''minute'', ''hour'', ''day'', ''week'', ''year'']"
    by code_simp
  with assms(5) have u: "u \<noteq> []" "list_all (\<lambda>c. \<not> is_digit c \<and> c \<noteq> CHR '' '' \<and> c \<noteq> CHR '':'') u"
    "hd u \<noteq> CHR ''.''" "toLowerCase u = u" "unit_weight (''0.0'' @ u) = unit_weight u"
    unfolding list_all_iff by blast+
  have un: "list_all (\<lambda>c. \<not> is_digit c) u" using u(2) by (simp add: list_all_iff)
  let ?s = "d1 @ u"
  have dc: "CHR '':'' \<notin> set d1" "CHR '' '' \<notin> set d1"
    using assms(2) is_digit_not_special by (auto simp: list_all_iff)
  have c: "colon_form ?s = ?s" using dc u(2) by (auto simp: colon_form_def list_all_iff)
  have b: "strip_blanks ?s = ?s" using dc u(2) by (auto simp: strip_blanks_def list_all_iff)
  have "\<not> list_all is_digit ?s" using u(1) un by (cases u) auto
  then have n: "bare_number ?s = ?s" by (simp add: bare_number_def)
  have "exec_all (d1 @ [] @ [] @ u @ []) = (d1 @ [] @ [] @ u) # exec_all []"
    using assms(1,2) u(1,3) un by (intro exec_all_token) auto
  then have e: "exec_all ?s = [?s]" by (simp add: exec_all_Nil)
  have "parseTime ?s =
     (case unit_weight u of
        None \<Rightarrow> Null
      | Some w \<Rightarrow> if digits_value d1 * w = 0 then Null else Number (digits_value d1 * w))"
    unfolding parseTime_def c b n e
    using parse_step_plain[OF assms(1,2) u(1) un u(3,4), of "Some 0"]
    by (simp split: option.splits)
  then show ?thesis
    using parseTime_decimal[OF assms(1-4) u(1,2,4)] u(5) by simp
qed

text \<open>
  C10. The integer part of a decimal value is what \<open>parseInt\<close> keeps, and with a
  one-letter unit the weight is that of the unit: \<open>1.5h\<close> is one hour, as \<open>1h\<close> is.
  With a plural unit word the weight is not that of the unit. The dot is the first run
  of non-digits of the token and is one character long, so the test for the letter
  \<open>s\<close>, which is meant for a one-letter unit, accepts a token that ends in \<open>s\<close>:
  \<open>1.5hours\<close> and \<open>2.5 hours\<close> count as one and two seconds, where \<open>1hours\<close> and
  \<open>2 hours\<close> count as hours.
\<close>

theorem parseTime_decimal_plural:
  "parseTime ''1.5h'' = Number 3600000 \<and> parseTime ''1h'' = Number 3600000
   \<and> parseTime ''1.5hours'' = Number 1000 \<and> parseTime ''1hours'' = Number 3600000
   \<and> parseTime ''2.5 hours'' = Number 2000 \<and> parseTime ''2 hours'' = Number 7200000
   \<and> parseTime ''1.5 minutes'' = Number 1000 \<and> parseTime ''1.5 days'' = Number 1000"
  by code_simp

end
